theory Spec2Isabelle
  imports Main "HOL-Library.Sublist"
begin

section \<open>Python strings and slices\<close>

text \<open>
  A Python \<open>str\<close> is modelled as a \<open>string\<close>: one \<open>char\<close> per code point, for
  texts whose code points are below 256, so that \<open>length\<close> is Python's \<open>len\<close>.
  \<open>is_space\<close> lists the code points below 256 that \<open>str.strip()\<close> removes and
  \<open>str.isspace()\<close> accepts.
\<close>

definition is_space :: "char \<Rightarrow> bool" where
  "is_space c = (c \<in> set [CHR 0x09, CHR 0x0A, CHR 0x0B, CHR 0x0C, CHR 0x0D,
                           CHR 0x1C, CHR 0x1D, CHR 0x1E, CHR 0x1F, CHR 0x20, CHR 0x85, CHR 0xA0])"

definition lstrip :: "string \<Rightarrow> string" where
  "lstrip s = dropWhile is_space s"

definition rstrip :: "string \<Rightarrow> string" where
  "rstrip s = rev (dropWhile is_space (rev s))"

definition strip :: "string \<Rightarrow> string" where
  "strip s = rstrip (lstrip s)"

text \<open>
  Slice bounds as Python adjusts them: a negative bound counts from the end
  (\<open>py_start\<close>), and every bound is clamped to \<open>0 .. len\<close> (\<open>py_index\<close>).
\<close>

definition py_start :: "int \<Rightarrow> nat \<Rightarrow> nat" where
  "py_start i n = (if i < 0 then nat (max 0 (i + int n)) else nat i)"

definition py_index :: "int \<Rightarrow> nat \<Rightarrow> nat" where
  "py_index i n = min (py_start i n) n"

definition py_slice :: "'a list \<Rightarrow> int \<Rightarrow> int \<Rightarrow> 'a list" where
  "py_slice xs lo hi =
     (let l = py_index lo (length xs); h = py_index hi (length xs)
      in take (h - l) (drop l xs))"

text \<open>
  \<open>text.rfind(sep, lo, hi)\<close>: the highest index \<open>i\<close> with \<open>lo \<le> i\<close>,
  \<open>i + len(sep) \<le> hi\<close> where \<open>sep\<close> occurs, and \<open>-1\<close> when there is none.
  A negative bound counts from the end; \<open>hi\<close> is clamped to the length, \<open>lo\<close>
  is not.
\<close>

definition rfind :: "'a list \<Rightarrow> 'a list \<Rightarrow> int \<Rightarrow> int \<Rightarrow> int" where
  "rfind text sep lo hi =
     (let l = py_start lo (length text); h = py_index hi (length text); m = length sep
      in if h < l + m then - 1
         else (case filter (\<lambda>i. take m (drop i text) = sep) (rev [l ..< h - m + 1]) of
                 [] \<Rightarrow> - 1
               | i # _ \<Rightarrow> int i))"

definition startswith :: "string \<Rightarrow> string \<Rightarrow> bool" where
  "startswith s p = (take (length p) s = p)"

text \<open>\<open>str.lower()\<close> on code points below 256.\<close>

definition lower_char :: "char \<Rightarrow> char" where
  "lower_char c =
     (let n = (of_char c :: nat)
      in if (65 \<le> n \<and> n \<le> 90) \<or> (192 \<le> n \<and> n \<le> 222 \<and> n \<noteq> 215)
         then char_of (n + 32) else c)"

definition lower :: "string \<Rightarrow> string" where
  "lower s = map lower_char s"

text \<open>
  \<open>str.splitlines()\<close>: the line boundaries below code point 256; a carriage return
  followed by a line feed is one boundary.
\<close>

definition is_linebreak :: "char \<Rightarrow> bool" where
  "is_linebreak c = (c \<in> set [CHR 0x0A, CHR 0x0B, CHR 0x0C, CHR 0x0D,
                               CHR 0x1C, CHR 0x1D, CHR 0x1E, CHR 0x85])"

fun splitlines_from :: "string \<Rightarrow> string \<Rightarrow> string list" where
  "splitlines_from cur [] = (if cur = [] then [] else [cur])"
| "splitlines_from cur [c] = (if is_linebreak c then [cur] else [cur @ [c]])"
| "splitlines_from cur (c # d # cs) =
     (if c = CHR 0x0D \<and> d = CHR 0x0A then cur # splitlines_from [] cs
      else if is_linebreak c then cur # splitlines_from [] (d # cs)
      else splitlines_from (cur @ [c]) (d # cs))"

definition splitlines :: "string \<Rightarrow> string list" where
  "splitlines s = splitlines_from [] s"

text \<open>Decimal numerals: \<open>str(n)\<close> and the format \<open>{n:06d}\<close> for \<open>n \<ge> 0\<close>.\<close>

definition digit_char :: "nat \<Rightarrow> char" where
  "digit_char d = char_of (48 + d)"

fun str_nat :: "nat \<Rightarrow> string" where
  "str_nat n = (if n < 10 then [digit_char n] else str_nat (n div 10) @ [digit_char (n mod 10)])"

declare str_nat.simps [simp del]

definition str_int :: "int \<Rightarrow> string" where
  "str_int i = (if i < 0 then CHR ''-'' # str_nat (nat (- i)) else str_nat (nat i))"

definition format_06d :: "nat \<Rightarrow> string" where
  "format_06d n = (let s = str_nat n in replicate (6 - length s) CHR ''0'' @ s)"

definition join :: "string \<Rightarrow> string list \<Rightarrow> string" where
  "join sep parts = (case parts of [] \<Rightarrow> [] | p # ps \<Rightarrow> p @ concat (map (\<lambda>q. sep @ q) ps))"

section \<open>Configuration and errors\<close>

record RAGConfig =
  api_key :: string
  embed_model :: string
  chat_model :: string
  chroma_path :: string
  collection_name :: string
  chunk_size :: int
  chunk_overlap :: int
  top_k :: int
  system_prompt :: string

text \<open>
  Every exception the modelled code raises, or lets through from a capability, is a value.
\<close>

datatype error =
    ValueError string
  | FileNotFoundError string
  | KeyError string
  | IndexError
  | CollectionNotFound string
  | RemoteCallFailure string

section \<open>Chunker\<close>

definition separators :: "string list" where
  "separators = [''\<newline>\<newline>'', ''\<newline>'', ''. '', ''! '', ''? '', ''; '']"

text \<open>
  The \<open>for sep in [...]\<close> loop of \<open>chunk_text\<close>: the first separator, in priority order,
  that occurs in the search range moves the cut to just after its last occurrence.
\<close>

fun find_cut :: "string \<Rightarrow> string list \<Rightarrow> int \<Rightarrow> int \<Rightarrow> int option" where
  "find_cut text [] lo hi = None"
| "find_cut text (sep # seps) lo hi =
     (let last_sep = rfind text sep lo hi
      in if last_sep \<noteq> - 1 then Some (last_sep + int (length sep))
         else find_cut text seps lo hi)"

definition window_end :: "string \<Rightarrow> int \<Rightarrow> int \<Rightarrow> int" where
  "window_end text csize start =
     (let end = start + csize
      in if end < int (length text)
         then (case find_cut text separators (start + csize div 2) end of
                 Some e \<Rightarrow> e | None \<Rightarrow> end)
         else end)"

text \<open>
  The \<open>while\<close> loop of \<open>chunk_text\<close>. Nothing in the code bounds the number of
  iterations, so the loop is a partial function: \<open>None\<close> is a run that never returns.
\<close>

partial_function (option) chunk_loop ::
  "string \<Rightarrow> int \<Rightarrow> int \<Rightarrow> int \<Rightarrow> string list \<Rightarrow> string list option" where
  "chunk_loop text csize overlap start chunks =
     (if start < int (length text) then
        (let end = window_end text csize start;
             chunk = strip (py_slice text start end);
             chunks' = (if chunk \<noteq> [] \<and> length chunk > 50 then chunks @ [chunk] else chunks);
             start' = end - overlap
         in if start' \<ge> int (length text) then Some chunks'
            else chunk_loop text csize overlap start' chunks')
      else Some chunks)"

declare chunk_loop.simps [code]

definition chunk_text :: "int \<Rightarrow> int \<Rightarrow> string \<Rightarrow> string list option" where
  "chunk_text csize overlap text = chunk_loop text csize overlap 0 []"

subsection \<open>Windows of the chunker\<close>

text \<open>
  The spans \<open>[start, end)\<close> that the loop of \<open>chunk_text\<close> visits, as a predicate on a
  list of spans: the first window starts at \<open>start\<close>, each window ends where
  \<open>window_end\<close> puts the cut, the next one starts \<open>overlap\<close> characters before that
  end, and the list stops when the next start has reached the end of the text.
\<close>

fun window_chain :: "string \<Rightarrow> int \<Rightarrow> int \<Rightarrow> int \<Rightarrow> (int \<times> int) list \<Rightarrow> bool" where
  "window_chain text csize overlap start [] = (int (length text) \<le> start)"
| "window_chain text csize overlap start (w # ws) =
     (fst w = start \<and> start < int (length text) \<and> snd w = window_end text csize start
      \<and> window_chain text csize overlap (snd w - overlap) ws)"

definition window_chunk :: "string \<Rightarrow> int \<times> int \<Rightarrow> string" where
  "window_chunk text w = strip (py_slice text (fst w) (snd w))"

definition long_enough :: "string \<Rightarrow> bool" where
  "long_enough chunk = (chunk \<noteq> [] \<and> length chunk > 50)"

definition emitted :: "string \<Rightarrow> (int \<times> int) list \<Rightarrow> string list" where
  "emitted text ws = filter long_enough (map (window_chunk text) ws)"

definition covered :: "(int \<times> int) list \<Rightarrow> nat \<Rightarrow> bool" where
  "covered ws p = (\<exists>w \<in> set ws. 0 \<le> fst w \<and> fst w \<le> int p \<and> int p < snd w)"

definition floor_ok :: "string \<Rightarrow> string \<Rightarrow> bool" where
  "floor_ok text c = (strip c = c \<and> 50 < length c \<and> length c \<le> length (strip text))"

text \<open>
  The coverage property in the words of the specification: the chunks, each but the first
  without its leading \<open>overlap\<close> characters, concatenate to the text up to a trailing
  fragment of at most 50 characters. Whitespace is left out of the comparison, since
  every chunk is stripped.
\<close>

definition visible :: "string \<Rightarrow> string" where
  "visible s = filter (\<lambda>c. \<not> is_space c) s"

definition reassemble :: "nat \<Rightarrow> string list \<Rightarrow> string" where
  "reassemble overlap chunks =
     (case chunks of [] \<Rightarrow> [] | c # cs \<Rightarrow> c @ concat (map (drop overlap) cs))"

definition covers_except_tail :: "string \<Rightarrow> nat \<Rightarrow> string list \<Rightarrow> bool" where
  "covers_except_tail text overlap chunks =
     (let r = visible (reassemble overlap chunks); t = visible text
      in prefix r t \<and> length (drop (length r) t) \<le> 50)"

text \<open>Two sample texts: 35 letters, a line break, 60 letters; and a sentence break at index 5.\<close>

definition gap_text :: string where
  "gap_text = replicate 35 CHR ''b'' @ ''\<newline>'' @ replicate 60 CHR ''c''"

definition stuck_text :: string where
  "stuck_text = ''aaaaa. bbbbbbbbbbbbb''"

section \<open>Documents and their chunks\<close>

text \<open>
  A document record as \<open>load_sources\<close> builds it (keys \<open>text\<close> and \<open>size\<close> are the
  fields \<open>doc_text\<close> and \<open>doc_size\<close>), and a metadata \<open>dict\<close> as an association
  list from key to value, in the order the keys are written.
\<close>

record document =
  filename :: string
  filepath :: string
  source_dir :: string
  doc_text :: string
  hash :: string
  doc_size :: int
  modified :: string

datatype py_value = VStr string | VInt int

type_synonym metadata = "(string \<times> py_value) list"

definition doc_metadata :: "document \<Rightarrow> nat \<Rightarrow> nat \<Rightarrow> metadata" where
  "doc_metadata doc i n =
     [(''filename'', VStr (filename doc)),
      (''source_dir'', VStr (source_dir doc)),
      (''chunk_index'', VInt (int i)),
      (''total_chunks'', VInt (int n)),
      (''content_hash'', VStr (hash doc)),
      (''doc_modified'', VStr (modified doc))]"

text \<open>The inner loop of \<open>chunk_documents\<close>, over \<open>enumerate(chunks)\<close>.\<close>

definition append_doc_chunks ::
  "document \<Rightarrow> string list \<Rightarrow> string list \<times> metadata list \<Rightarrow> string list \<times> metadata list" where
  "append_doc_chunks doc chunks acc =
     foldl (\<lambda>(all_chunks, all_metadata) (i, chunk).
              (all_chunks @ [chunk], all_metadata @ [doc_metadata doc i (length chunks)]))
       acc (enumerate 0 chunks)"

text \<open>The outer loop, over the documents; it returns only if every \<open>chunk_text\<close> does.\<close>

fun chunk_documents_loop ::
  "RAGConfig \<Rightarrow> document list \<Rightarrow> string list \<times> metadata list
     \<Rightarrow> (string list \<times> metadata list) option" where
  "chunk_documents_loop cfg [] acc = Some acc"
| "chunk_documents_loop cfg (doc # docs) acc =
     (case chunk_text (chunk_size cfg) (chunk_overlap cfg) (doc_text doc) of
        None \<Rightarrow> None
      | Some chunks \<Rightarrow> chunk_documents_loop cfg docs (append_doc_chunks doc chunks acc))"

definition chunk_documents ::
  "RAGConfig \<Rightarrow> document list \<Rightarrow> (string list \<times> metadata list) option" where
  "chunk_documents cfg docs = chunk_documents_loop cfg docs ([], [])"

text \<open>The metadata records of one document with \<open>n\<close> chunks, as the claim describes them.\<close>

definition doc_metadatas :: "document \<Rightarrow> nat \<Rightarrow> metadata list" where
  "doc_metadatas doc n = map (\<lambda>i. doc_metadata doc i n) [0 ..< n]"

section \<open>Remote capabilities and the embedder\<close>

text \<open>
  The embedding and the generation service are capabilities of the environment: functions
  that answer or fail. \<open>'v\<close> is the type of an embedding vector. The generation call
  always passes temperature 0.1 and at most 1024 tokens; these two constants are not
  arguments of the model.
\<close>

record chat_response =
  choices :: "string list"
  prompt_tokens :: int
  completion_tokens :: int
  total_tokens :: int

record 'v remote =
  embeddings_create :: "string \<Rightarrow> string list \<Rightarrow> error + 'v list"
  chat_complete :: "string \<Rightarrow> string \<Rightarrow> string \<Rightarrow> error + chat_response"

text \<open>The calls made to the remote service, in order: the trace of an operation.\<close>

datatype remote_call =
    EmbedCall string "string list"
  | ChatCall string string string

text \<open>
  \<open>_get_client\<close>: the key of the configuration, or else of the environment variable
  (\<open>env_key\<close>, empty when unset); no key is a \<open>ValueError\<close>.
\<close>

definition get_client :: "RAGConfig \<Rightarrow> string \<Rightarrow> error + string" where
  "get_client cfg env_key =
     (let key = (if api_key cfg \<noteq> [] then api_key cfg else env_key)
      in if key = []
         then Inl (ValueError ''API key mancante. Imposta MISTRAL_API_KEY o passa api_key nella config.'')
         else Inr key)"

text \<open>
  The loop \<open>for i in range(0, total, batch_size)\<close> of \<open>embed_texts\<close> for a positive
  step. A failing call ends the operation with its error.
\<close>

function embed_loop ::
  "RAGConfig \<Rightarrow> 'v remote \<Rightarrow> string list \<Rightarrow> nat \<Rightarrow> nat \<Rightarrow> remote_call list \<times> 'v list
     \<Rightarrow> remote_call list \<times> (error + 'v list)" where
  "embed_loop cfg remote texts batch_size i (calls, all_embeddings) =
     (if batch_size = 0 \<or> length texts \<le> i then (calls, Inr all_embeddings)
      else
        (let batch = py_slice texts (int i) (int i + int batch_size);
             calls' = calls @ [EmbedCall (embed_model cfg) batch]
         in case embeddings_create remote (embed_model cfg) batch of
              Inl e \<Rightarrow> (calls', Inl e)
            | Inr batch_embeddings \<Rightarrow>
                embed_loop cfg remote texts batch_size (i + batch_size)
                  (calls', all_embeddings @ batch_embeddings)))"
  by pat_completeness auto
termination
  by (relation "measure (\<lambda>(cfg, remote, texts, batch_size, i, acc). length texts - i)") auto

declare embed_loop.simps [simp del]

definition embed_texts ::
  "RAGConfig \<Rightarrow> string \<Rightarrow> 'v remote \<Rightarrow> string list \<Rightarrow> int
     \<Rightarrow> remote_call list \<times> (error + 'v list)" where
  "embed_texts cfg env_key remote texts batch_size =
     (case get_client cfg env_key of
        Inl e \<Rightarrow> ([], Inl e)
      | Inr key \<Rightarrow>
          if batch_size = 0 then ([], Inl (ValueError ''range() arg 3 must not be zero''))
          else if batch_size < 0 then ([], Inr [])
          else embed_loop cfg remote texts (nat batch_size) 0 ([], []))"

definition batch_of_call :: "remote_call \<Rightarrow> string list" where
  "batch_of_call c = (case c of EmbedCall m batch \<Rightarrow> batch | ChatCall m s u \<Rightarrow> [])"

definition doc_chunks :: "RAGConfig \<Rightarrow> document \<Rightarrow> string list option" where
  "doc_chunks cfg doc = chunk_text (chunk_size cfg) (chunk_overlap cfg) (doc_text doc)"

section \<open>Vector store\<close>

text \<open>
  The vector database is a capability of the environment (collection create, get and
  delete, \<open>add\<close>, \<open>query\<close>, \<open>count\<close>). Its model: a store maps a collection name
  to the list of its records, in insertion order; \<open>count\<close> is the length of that list;
  deleting or getting a collection that does not exist fails; \<open>add\<close> takes four lists of
  equal length and inserts one record per position, leaving out a record whose id is
  already in the collection.
\<close>

record 'v vector_record =
  rec_id :: string
  rec_document :: string
  rec_embedding :: 'v
  rec_metadata :: metadata

type_synonym 'v collection = "'v vector_record list"

type_synonym 'v chroma = "string \<Rightarrow> 'v vector_record list option"

definition delete_collection :: "'v chroma \<Rightarrow> string \<Rightarrow> error + 'v chroma" where
  "delete_collection chroma name =
     (case chroma name of
        None \<Rightarrow> Inl (CollectionNotFound name)
      | Some coll \<Rightarrow> Inr (chroma (name := None)))"

definition get_collection :: "'v chroma \<Rightarrow> string \<Rightarrow> error + 'v collection" where
  "get_collection chroma name =
     (case chroma name of
        None \<Rightarrow> Inl (CollectionNotFound name)
      | Some coll \<Rightarrow> Inr coll)"

definition get_or_create_collection :: "'v chroma \<Rightarrow> string \<Rightarrow> 'v chroma \<times> 'v collection" where
  "get_or_create_collection chroma name =
     (case chroma name of
        None \<Rightarrow> (chroma (name \<mapsto> []), [])
      | Some coll \<Rightarrow> (chroma, coll))"

definition collection_count :: "'v collection \<Rightarrow> nat" where
  "collection_count coll = length coll"

definition add_record :: "'v collection \<Rightarrow> 'v vector_record \<Rightarrow> 'v collection" where
  "add_record coll r = (if rec_id r \<in> set (map rec_id coll) then coll else coll @ [r])"

definition make_records ::
  "string list \<Rightarrow> string list \<Rightarrow> 'v list \<Rightarrow> metadata list \<Rightarrow> 'v vector_record list" where
  "make_records ids documents embeddings metadatas =
     map (\<lambda>(i, d, e, m). \<lparr>rec_id = i, rec_document = d, rec_embedding = e, rec_metadata = m\<rparr>)
       (zip ids (zip documents (zip embeddings metadatas)))"

definition collection_add ::
  "'v collection \<Rightarrow> string list \<Rightarrow> string list \<Rightarrow> 'v list \<Rightarrow> metadata list
     \<Rightarrow> error + 'v collection" where
  "collection_add coll ids documents embeddings metadatas =
     (if length documents \<noteq> length ids \<or> length embeddings \<noteq> length ids
         \<or> length metadatas \<noteq> length ids
      then Inl (ValueError ''Unequal lengths for fields'')
      else Inr (foldl add_record coll (make_records ids documents embeddings metadatas)))"

section \<open>Loader\<close>

text \<open>
  The file system, \<open>pathlib\<close>, the per-format text extraction and the MD5 digest are
  capabilities of the environment. A path is the string of the path.
\<close>

record filesystem =
  fs_resolve :: "string \<Rightarrow> string"
  fs_exists :: "string \<Rightarrow> bool"
  fs_is_file :: "string \<Rightarrow> bool"
  fs_is_dir :: "string \<Rightarrow> bool"
  fs_rglob :: "string \<Rightarrow> string list"
  fs_name :: "string \<Rightarrow> string"
  fs_suffix :: "string \<Rightarrow> string"
  fs_parent :: "string \<Rightarrow> string"
  fs_read_text :: "string \<Rightarrow> string"
  fs_extract_text :: "string \<Rightarrow> string"
  fs_modified :: "string \<Rightarrow> string"
  fs_md5_hex :: "string \<Rightarrow> string"

definition SUPPORTED_EXTENSIONS :: "string list" where
  "SUPPORTED_EXTENSIONS =
     [''.txt'', ''.md'', ''.csv'', ''.json'', ''.log'', ''.yml'', ''.yaml'', ''.xml'',
      ''.pdf'', ''.docx'', ''.doc'', ''.xlsx'', ''.xls'', ''.pptx'',
      ''.html'', ''.htm'',
      ''.odt'', ''.rtf'']"

text \<open>What \<open>load_sources\<close> writes to the log, one constructor per message.\<close>

datatype log_entry =
    PathNotFound string
  | Loading string
  | Loaded string nat
  | NoTextExtracted string
  | TotalLoaded nat

text \<open>The body of the loop over the files of one path.\<close>

definition load_file ::
  "filesystem \<Rightarrow> document list \<times> log_entry list \<Rightarrow> string
     \<Rightarrow> document list \<times> log_entry list" where
  "load_file fs acc file =
     (if fs_is_dir fs file then acc
      else if lower (fs_suffix fs file) \<notin> set SUPPORTED_EXTENSIONS then acc
      else if startswith (fs_name fs file) ''.'' \<or> startswith (fs_name fs file) ''~'' then acc
      else
        (let content = fs_extract_text fs file
         in if strip content \<noteq> []
            then (fst acc @ [\<lparr>filename = fs_name fs file,
                               filepath = file,
                               source_dir = fs_parent fs file,
                               doc_text = strip content,
                               hash = take 12 (fs_md5_hex fs content),
                               doc_size = int (length content),
                               modified = fs_modified fs file\<rparr>],
                  snd acc @ [Loading (fs_name fs file), Loaded (fs_name fs file) (length content)])
            else (fst acc, snd acc @ [Loading (fs_name fs file), NoTextExtracted (fs_name fs file)])))"

text \<open>
  The body of the loop over the paths: a path that does not exist is logged and skipped
  (\<open>continue\<close>).
\<close>

definition load_path ::
  "filesystem \<Rightarrow> document list \<times> log_entry list \<Rightarrow> string
     \<Rightarrow> document list \<times> log_entry list" where
  "load_path fs acc path_str =
     (let path = fs_resolve fs path_str
      in if \<not> fs_exists fs path then (fst acc, snd acc @ [PathNotFound path])
         else foldl (load_file fs) acc (if fs_is_file fs path then [path] else fs_rglob fs path))"

definition load_sources :: "filesystem \<Rightarrow> string list \<Rightarrow> document list \<times> log_entry list" where
  "load_sources fs paths =
     (let acc = foldl (load_path fs) ([], []) paths
      in (fst acc, snd acc @ [TotalLoaded (length (fst acc))]))"

definition manifest_paths :: "string \<Rightarrow> string list" where
  "manifest_paths content =
     filter (\<lambda>line. line \<noteq> [] \<and> \<not> startswith line ''#'') (map strip (splitlines content))"

definition load_sources_file ::
  "filesystem \<Rightarrow> string \<Rightarrow> error + document list \<times> log_entry list" where
  "load_sources_file fs sources_file =
     (if \<not> fs_exists fs sources_file
      then Inl (FileNotFoundError (''File sorgenti non trovato: '' @ sources_file))
      else
        (let paths = manifest_paths (fs_read_text fs sources_file)
         in if paths = [] then Inl (ValueError (''Nessun percorso trovato in '' @ sources_file))
            else Inr (load_sources fs paths)))"

section \<open>Ingestion pipeline\<close>

text \<open>
  Python floats are not interpreted: the float operations the code uses are parameters,
  \<open>'f\<close> being the type of a float. \<open>fzero\<close> is \<open>0.0\<close>, \<open>cost_of n\<close> is
  \<open>n * 0.10 / 1_000_000\<close>, \<open>one_minus d\<close> is \<open>1 - d\<close> and \<open>round4 x\<close> is
  \<open>round(x, 4)\<close>.
\<close>

record 'f float_ops =
  fzero :: 'f
  cost_of :: "int \<Rightarrow> 'f"
  one_minus :: "'f \<Rightarrow> 'f"
  round4 :: "'f \<Rightarrow> 'f"

text \<open>
  The statistics \<open>dict\<close> of \<open>ingest\<close>: field \<open>stat_k\<close> is the value at key \<open>k\<close>.
\<close>

record 'f stats =
  stat_documents :: int
  stat_chunks :: int
  stat_tokens_est :: int
  stat_cost_est :: 'f
  stat_errors :: "string list"

definition chunk_id :: "nat \<Rightarrow> string" where
  "chunk_id n = ''chunk_'' @ format_06d n"

definition batch_limit :: nat where
  "batch_limit = 5000"

text \<open>
  The loop \<open>for i in range(0, len(chunks), batch_limit)\<close> of the store stage. A failing
  \<open>add\<close> ends it; what earlier rounds wrote stays written.
\<close>

function add_loop ::
  "'v collection \<Rightarrow> string list \<Rightarrow> string list \<Rightarrow> 'v list \<Rightarrow> metadata list \<Rightarrow> nat
     \<Rightarrow> 'v collection \<times> error option" where
  "add_loop coll ids chunks embeddings metadata i =
     (if length chunks \<le> i then (coll, None)
      else
        (let end = int (min (i + batch_limit) (length chunks))
         in case collection_add coll (py_slice ids (int i) end) (py_slice chunks (int i) end)
                   (py_slice embeddings (int i) end) (py_slice metadata (int i) end) of
              Inl e \<Rightarrow> (coll, Some e)
            | Inr coll' \<Rightarrow> add_loop coll' ids chunks embeddings metadata (i + batch_limit)))"
  by pat_completeness auto
termination
  by (relation "measure (\<lambda>(coll, ids, chunks, embeddings, metadata, i). length chunks - i)")
     (auto simp: batch_limit_def)

declare add_loop.simps [simp del]

text \<open>
  Step 1 of \<open>ingest\<close>: a non-empty \<open>sources_file\<close> wins over \<open>paths\<close>; with neither,
  \<open>ValueError\<close>.
\<close>

definition load_stage ::
  "filesystem \<Rightarrow> string list option \<Rightarrow> string option \<Rightarrow> error + document list" where
  "load_stage fs paths sources_file =
     (if sources_file \<noteq> None \<and> sources_file \<noteq> Some []
      then map_sum id fst (load_sources_file fs (the sources_file))
      else if paths \<noteq> None \<and> paths \<noteq> Some []
      then Inr (fst (load_sources fs (the paths)))
      else Inl (ValueError ''Specifica paths o sources_file''))"

text \<open>Step 4 of \<open>ingest\<close>, on the store.\<close>

definition store_stage ::
  "RAGConfig \<Rightarrow> 'v chroma \<Rightarrow> bool \<Rightarrow> string list \<Rightarrow> 'v list \<Rightarrow> metadata list
     \<Rightarrow> 'v chroma \<times> error option" where
  "store_stage cfg chroma appending chunks embeddings metadata =
     (let chroma1 = (if \<not> appending
                     then (case delete_collection chroma (collection_name cfg) of
                             Inl e \<Rightarrow> chroma | Inr c \<Rightarrow> c)
                     else chroma);
          created = get_or_create_collection chroma1 (collection_name cfg);
          existing_count = (if appending then collection_count (snd created) else 0);
          ids = map (\<lambda>i. chunk_id (existing_count + i)) [0 ..< length chunks];
          added = add_loop (snd created) ids chunks embeddings metadata 0
      in ((fst created) (collection_name cfg \<mapsto> fst added), snd added))"

text \<open>
  \<open>ingest\<close>. The result is \<open>None\<close> when the chunker does not return; otherwise the
  store and the remote calls after the operation, and the statistics or the error raised.
\<close>

definition ingest ::
  "RAGConfig \<Rightarrow> string \<Rightarrow> filesystem \<Rightarrow> 'v remote \<Rightarrow> 'f float_ops \<Rightarrow> 'v chroma
     \<Rightarrow> string list option \<Rightarrow> string option \<Rightarrow> bool
     \<Rightarrow> (('v chroma \<times> remote_call list) \<times> (error + 'f stats)) option" where
  "ingest cfg env_key fs remote fops chroma paths sources_file appending =
     (let stats = \<lparr>stat_documents = 0, stat_chunks = 0, stat_tokens_est = 0,
                   stat_cost_est = fzero fops, stat_errors = []\<rparr>
      in case load_stage fs paths sources_file of
           Inl e \<Rightarrow> Some ((chroma, []), Inl e)
         | Inr docs \<Rightarrow>
             if docs = []
             then Some ((chroma, []),
                        Inr (stats \<lparr>stat_errors := stat_errors stats @ [''Nessun documento trovato'']\<rparr>))
             else
               (case chunk_documents cfg docs of
                  None \<Rightarrow> None
                | Some (chunks, metadata) \<Rightarrow>
                    (case embed_texts cfg env_key remote chunks 50 of
                       (calls, Inl e) \<Rightarrow> Some ((chroma, calls), Inl e)
                     | (calls, Inr embeddings) \<Rightarrow>
                         (case store_stage cfg chroma appending chunks embeddings metadata of
                            (chroma', Some e) \<Rightarrow> Some ((chroma', calls), Inl e)
                          | (chroma', None) \<Rightarrow>
                              (let tokens = int (sum_list (map length chunks)) div 4
                               in Some ((chroma', calls),
                                        Inr (stats \<lparr>stat_documents := int (length docs),
                                                     stat_chunks := int (length chunks),
                                                     stat_tokens_est := tokens,
                                                     stat_cost_est := cost_of fops tokens\<rparr>)))))))"

text \<open>Reading a decimal numeral back, to tell generated ids apart.\<close>

definition digit_val :: "char \<Rightarrow> nat" where
  "digit_val c = of_char c - 48"

definition parse_nat :: "string \<Rightarrow> nat" where
  "parse_nat s = foldl (\<lambda>a c. 10 * a + digit_val c) 0 s"

text \<open>
  The records of the configured collection, none when the collection does not exist; the
  record that position \<open>j\<close> of an ingest writes when ids start at \<open>base\<close>; and the
  chunks of the document set that an \<open>ingest\<close> call loads.
\<close>

definition stored :: "RAGConfig \<Rightarrow> 'v chroma \<Rightarrow> 'v collection" where
  "stored cfg chroma = (case chroma (collection_name cfg) of None \<Rightarrow> [] | Some coll \<Rightarrow> coll)"

definition ingest_record ::
  "nat \<Rightarrow> string list \<Rightarrow> 'v list \<Rightarrow> metadata list \<Rightarrow> nat \<Rightarrow> 'v vector_record" where
  "ingest_record base chunks embeddings metadata j =
     \<lparr>rec_id = chunk_id (base + j), rec_document = chunks ! j,
      rec_embedding = embeddings ! j, rec_metadata = metadata ! j\<rparr>"

definition ingest_chunks ::
  "RAGConfig \<Rightarrow> filesystem \<Rightarrow> string list option \<Rightarrow> string option \<Rightarrow> string list option" where
  "ingest_chunks cfg fs paths sources_file =
     (case load_stage fs paths sources_file of
        Inl e \<Rightarrow> None
      | Inr docs \<Rightarrow> map_option fst (chunk_documents cfg docs))"

text \<open>Reading the outcome of an \<open>ingest\<close> call.\<close>

definition succeeded :: "('s \<times> (error + 'r)) option \<Rightarrow> bool" where
  "succeeded r = (case r of Some (s, Inr x) \<Rightarrow> True | Some (s, Inl e) \<Rightarrow> False | None \<Rightarrow> False)"

definition store_after ::
  "RAGConfig \<Rightarrow> (('v chroma \<times> remote_call list) \<times> (error + 'r)) option \<Rightarrow> 'v collection" where
  "store_after cfg r = (case r of Some (s, x) \<Rightarrow> stored cfg (fst s) | None \<Rightarrow> [])"

section \<open>Retrieval pipeline\<close>

text \<open>
  \<open>collection.query\<close>: the \<open>n_results\<close> records nearest to the query vector, nearest
  first, each with its distance; \<open>distance\<close> is the metric of the store. A collection
  with fewer records gives them all. The result is the list of triples that \<open>query\<close>
  obtains by zipping documents, metadatas and distances.
\<close>

definition collection_query ::
  "('v \<Rightarrow> 'v \<Rightarrow> 'f::linorder) \<Rightarrow> 'v collection \<Rightarrow> 'v \<Rightarrow> int
     \<Rightarrow> error + (string \<times> metadata \<times> 'f) list" where
  "collection_query distance coll q n_results =
     (if n_results \<le> 0 then Inl (ValueError ''Number of requested results cannot be negative, or zero.'')
      else Inr (take (nat n_results)
                  (sort_key (\<lambda>r. snd (snd r))
                     (map (\<lambda>r. (rec_document r, rec_metadata r, distance q (rec_embedding r)))
                        coll))))"

definition dict_get :: "metadata \<Rightarrow> string \<Rightarrow> py_value \<Rightarrow> py_value" where
  "dict_get meta key dflt = (case map_of meta key of None \<Rightarrow> dflt | Some v \<Rightarrow> v)"

definition dict_item :: "metadata \<Rightarrow> string \<Rightarrow> error + py_value" where
  "dict_item meta key = (case map_of meta key of None \<Rightarrow> Inl (KeyError key) | Some v \<Rightarrow> Inr v)"

definition py_str :: "py_value \<Rightarrow> string" where
  "py_str v = (case v of VStr s \<Rightarrow> s | VInt i \<Rightarrow> str_int i)"

text \<open>
  The \<open>dict\<close> of one source (key \<open>k\<close> is field \<open>cit_k\<close>) and the \<open>dict\<close> that
  \<open>query\<close> returns (keys \<open>answer\<close>, \<open>sources\<close>, \<open>usage\<close>).
\<close>

record 'f citation =
  cit_filename :: py_value
  cit_chunk_index :: py_value
  cit_similarity :: 'f
  cit_preview :: string

record 'f query_result =
  res_answer :: string
  res_sources :: "'f citation list"
  res_usage :: "int \<times> int \<times> int"

definition source_info :: "'f float_ops \<Rightarrow> string \<times> metadata \<times> 'f \<Rightarrow> 'f citation" where
  "source_info fops r =
     (let doc = fst r; meta = fst (snd r); dist = snd (snd r);
          similarity = one_minus fops dist
      in \<lparr>cit_filename = dict_get meta ''filename'' (VStr ''?''),
          cit_chunk_index = dict_get meta ''chunk_index'' (VStr ''?''),
          cit_similarity = round4 fops similarity,
          cit_preview = (if length doc > 200 then take 200 doc @ ''...'' else doc)\<rparr>)"

text \<open>
  The loop of \<open>query\<close> over the retrieved records. The context header reads the two keys
  with \<open>meta[...]\<close>, a \<open>KeyError\<close> when one is missing.
\<close>

fun query_loop ::
  "'f float_ops \<Rightarrow> (string \<times> metadata \<times> 'f) list \<Rightarrow> 'f citation list \<times> string list
     \<Rightarrow> error + 'f citation list \<times> string list" where
  "query_loop fops [] acc = Inr acc"
| "query_loop fops (r # rest) acc =
     (case dict_item (fst (snd r)) ''filename'' of
        Inl e \<Rightarrow> Inl e
      | Inr name \<Rightarrow>
          (case dict_item (fst (snd r)) ''chunk_index'' of
             Inl e \<Rightarrow> Inl e
           | Inr idx \<Rightarrow>
               query_loop fops rest
                 (fst acc @ [source_info fops r],
                  snd acc @ [''[Fonte: '' @ py_str name @ '', sezione '' @ py_str idx @ '']''
                             @ ''\<newline>'' @ fst r])))"

definition user_prompt :: "string \<Rightarrow> string \<Rightarrow> string" where
  "user_prompt context question =
     ''Contesto dai documenti aziendali:\<newline>---------------------\<newline>'' @ context
     @ ''\<newline>---------------------\<newline>\<newline>Domanda: '' @ question
     @ ''\<newline>\<newline>Rispondi basandoti solo sul contesto fornito sopra.''"

definition query ::
  "RAGConfig \<Rightarrow> string \<Rightarrow> 'v remote \<Rightarrow> 'f float_ops \<Rightarrow> ('v \<Rightarrow> 'v \<Rightarrow> 'f::linorder) \<Rightarrow> 'v chroma
     \<Rightarrow> string \<Rightarrow> int option \<Rightarrow> remote_call list \<times> (error + 'f query_result)" where
  "query cfg env_key remote fops distance chroma question k_arg =
     (let k = (case k_arg of None \<Rightarrow> top_k cfg | Some k' \<Rightarrow> k')
      in case get_client cfg env_key of
           Inl e \<Rightarrow> ([], Inl e)
         | Inr key \<Rightarrow>
      (case get_collection chroma (collection_name cfg) of
           Inl e \<Rightarrow> ([], Inl e)
         | Inr coll \<Rightarrow>
      (let calls1 = [EmbedCall (embed_model cfg) [question]]
       in case embeddings_create remote (embed_model cfg) [question] of
            Inl e \<Rightarrow> (calls1, Inl e)
          | Inr [] \<Rightarrow> (calls1, Inl IndexError)
          | Inr (q_embedding # other) \<Rightarrow>
      (case collection_query distance coll q_embedding k of
            Inl e \<Rightarrow> (calls1, Inl e)
          | Inr results \<Rightarrow>
      (case query_loop fops results ([], []) of
            Inl e \<Rightarrow> (calls1, Inl e)
          | Inr built \<Rightarrow>
      (let context = join ''\<newline>\<newline>---\<newline>\<newline>'' (snd built);
           prompt = user_prompt context question;
           calls2 = calls1 @ [ChatCall (chat_model cfg) (system_prompt cfg) prompt]
       in case chat_complete remote (chat_model cfg) (system_prompt cfg) prompt of
            Inl e \<Rightarrow> (calls2, Inl e)
          | Inr response \<Rightarrow>
              (case choices response of
                 [] \<Rightarrow> (calls2, Inl IndexError)
               | content # other \<Rightarrow>
                   (calls2,
                    Inr \<lparr>res_answer = content,
                         res_sources = fst built,
                         res_usage = (prompt_tokens response, completion_tokens response,
                                      total_tokens response)\<rparr>))))))))"

definition is_chat_call :: "remote_call \<Rightarrow> bool" where
  "is_chat_call c = (case c of ChatCall m s u \<Rightarrow> True | EmbedCall m b \<Rightarrow> False)"

definition requested :: "RAGConfig \<Rightarrow> int option \<Rightarrow> int" where
  "requested cfg k_arg = (case k_arg of None \<Rightarrow> top_k cfg | Some k \<Rightarrow> k)"

section \<open>Sample data\<close>

text \<open>
  A configuration with windows of 60 characters, a stub remote service whose embedding of
  a text is its length, float operations on distances counted in ten-thousandths, and a
  file system with two text files, a blank file and three manifests.
\<close>

definition sample_config :: RAGConfig where
  "sample_config =
     \<lparr>api_key = ''key'', embed_model = ''mistral-embed'', chat_model = ''mistral-small-latest'',
      chroma_path = ''./chroma_db'', collection_name = ''gdprag_docs'',
      chunk_size = 60, chunk_overlap = 0, top_k = 5, system_prompt = ''Sei GDPRag.''\<rparr>"

definition sample_remote :: "nat remote" where
  "sample_remote =
     \<lparr>embeddings_create = (\<lambda>model batch. Inr (map length batch)),
      chat_complete = (\<lambda>model system_msg user_msg.
         Inr \<lparr>choices = [''risposta''], prompt_tokens = 10, completion_tokens = 2,
              total_tokens = 12\<rparr>)\<rparr>"

definition sample_float_ops :: "int float_ops" where
  "sample_float_ops =
     \<lparr>fzero = 0, cost_of = (\<lambda>tokens. tokens), one_minus = (\<lambda>d. 10000 - d),
      round4 = (\<lambda>x. x)\<rparr>"

definition sample_distance :: "nat \<Rightarrow> nat \<Rightarrow> int" where
  "sample_distance a b = \<bar>int a - int b\<bar>"

definition sample_fs :: filesystem where
  "sample_fs =
     \<lparr>fs_resolve = (\<lambda>p. p),
      fs_exists = (\<lambda>p. p \<in> set [''a.txt'', ''b.txt'', ''blank.txt'', ''sources.txt'',
                                  ''comments.txt'']),
      fs_is_file = (\<lambda>p. True),
      fs_is_dir = (\<lambda>p. False),
      fs_rglob = (\<lambda>p. []),
      fs_name = (\<lambda>p. p),
      fs_suffix = (\<lambda>p. ''.txt''),
      fs_parent = (\<lambda>p. ''.''),
      fs_read_text = (\<lambda>p. if p = ''sources.txt'' then ''# manifest\<newline>a.txt\<newline>''
                            else ''# nothing here\<newline>\<newline>''),
      fs_extract_text = (\<lambda>p. if p = ''a.txt'' then gap_text
                               else if p = ''b.txt'' then replicate 70 CHR ''d''
                               else ''   ''),
      fs_modified = (\<lambda>p. ''2024-01-01T00:00:00''),
      fs_md5_hex = (\<lambda>content. ''0123456789abcdef0123456789abcdef'')\<rparr>"

definition sample_doc :: "string \<Rightarrow> string \<Rightarrow> document" where
  "sample_doc name content =
     \<lparr>filename = name, filepath = name, source_dir = ''.'', doc_text = strip content,
      hash = ''0123456789ab'', doc_size = int (length content),
      modified = ''2024-01-01T00:00:00''\<rparr>"

definition stale_store :: "nat chroma" where
  "stale_store =
     (\<lambda>name. if name = ''gdprag_docs''
              then Some [\<lparr>rec_id = chunk_id 0, rec_document = ''old'', rec_embedding = 3,
                          rec_metadata = []\<rparr>]
              else None)"

definition empty_store :: "nat chroma" where
  "empty_store = (\<lambda>name. None)"

definition doc_a :: document where
  "doc_a = sample_doc ''a.txt'' gap_text"

definition doc_b :: document where
  "doc_b = sample_doc ''b.txt'' (replicate 70 CHR ''d'')"

definition rec_a :: "nat vector_record" where
  "rec_a = \<lparr>rec_id = chunk_id 0, rec_document = replicate 60 CHR ''c'', rec_embedding = 60,
            rec_metadata = doc_metadata doc_a 0 1\<rparr>"

definition rec_b :: "nat vector_record" where
  "rec_b = \<lparr>rec_id = chunk_id 1, rec_document = replicate 60 CHR ''d'', rec_embedding = 60,
            rec_metadata = doc_metadata doc_b 0 1\<rparr>"

definition store_a :: "nat chroma" where
  "store_a = stale_store (''gdprag_docs'' \<mapsto> [rec_a])"

definition store_ab :: "nat chroma" where
  "store_ab = store_a (''gdprag_docs'' \<mapsto> [rec_a, rec_b])"


definition long_doc :: string where
  "long_doc = replicate 250 CHR ''x''"

definition sample_store :: "nat chroma" where
  "sample_store =
     (\<lambda>name. if name = ''gdprag_docs''
              then Some [\<lparr>rec_id = chunk_id 0, rec_document = long_doc, rec_embedding = 250,
                          rec_metadata = doc_metadata doc_a 0 1\<rparr>,
                         rec_b]
              else None)"

definition sample_context :: string where
  "sample_context =
     join ''\<newline>\<newline>---\<newline>\<newline>''
       [''[Fonte: b.txt, sezione 0]\<newline>'' @ replicate 60 CHR ''d'',
        ''[Fonte: a.txt, sezione 0]\<newline>'' @ long_doc]"

definition sample_result :: "int query_result" where
  "sample_result =
     \<lparr>res_answer = ''risposta'',
      res_sources =
        [\<lparr>cit_filename = VStr ''b.txt'', cit_chunk_index = VInt 0, cit_similarity = 9947,
           cit_preview = replicate 60 CHR ''d''\<rparr>,
         \<lparr>cit_filename = VStr ''a.txt'', cit_chunk_index = VInt 0, cit_similarity = 9757,
           cit_preview = replicate 200 CHR ''x'' @ ''...''\<rparr>],
      res_usage = (10, 2, 12)\<rparr>"


text \<open>
  A text of 60 letters between blanks; a document of two windows; and a configuration with
  windows of 10 characters overlapping by 8, with a document holding \<open>stuck_text\<close>.
\<close>

definition pad_text :: string where
  "pad_text = ''  '' @ replicate 60 CHR ''c'' @ ''  ''"

definition doc_two :: document where
  "doc_two = sample_doc ''two.txt'' (replicate 60 CHR ''c'' @ replicate 60 CHR ''e'')"

definition stuck_config :: RAGConfig where
  "stuck_config = sample_config \<lparr>chunk_size := 10, chunk_overlap := 8\<rparr>"

definition stuck_doc :: document where
  "stuck_doc = sample_doc ''stuck.txt'' stuck_text"

section \<open>Properties of the string primitives\<close>

lemma lstrip_Nil: "lstrip [] = []"
  by (simp add: lstrip_def)

lemma rstrip_Nil: "rstrip [] = []"
  by (simp add: rstrip_def)

lemma strip_Nil: "strip [] = []"
  by (simp add: strip_def lstrip_Nil rstrip_Nil)

lemma lstrip_Cons: "lstrip (x # xs) = (if is_space x then lstrip xs else x # xs)"
  by (simp add: lstrip_def)

lemma rstrip_Cons:
  "rstrip (x # xs) = (if rstrip xs = [] \<and> is_space x then [] else x # rstrip xs)"
  by (auto simp: rstrip_def dropWhile_append split: if_splits)

lemma strip_commute: "rstrip (lstrip s) = lstrip (rstrip s)"
proof (induction s)
  case Nil
  show ?case by (simp add: lstrip_Nil rstrip_Nil)
next
  case (Cons x xs)
  show ?case
  proof (cases "is_space x")
    case True
    then have "lstrip (rstrip (x # xs)) = lstrip (rstrip xs)"
      by (simp add: rstrip_Cons lstrip_Cons lstrip_Nil)
    with True Cons show ?thesis by (simp add: lstrip_Cons)
  next
    case False
    then show ?thesis by (simp add: rstrip_Cons lstrip_Cons)
  qed
qed

lemma strip_alt: "strip s = lstrip (rstrip s)"
  by (simp add: strip_def strip_commute)

lemma rstrip_rev: "rstrip (rev s) = rev (lstrip s)"
  by (simp add: rstrip_def lstrip_def)

lemma lstrip_rev: "lstrip (rev s) = rev (rstrip s)"
  by (simp add: rstrip_def lstrip_def)

lemma strip_rev: "strip (rev s) = rev (strip s)"
  by (simp add: strip_def lstrip_rev rstrip_rev strip_commute)

lemma length_lstrip_le: "length (lstrip s) \<le> length s"
  by (simp add: lstrip_def length_dropWhile_le)

lemma strip_Cons_length: "length (strip xs) \<le> length (strip (x # xs))"
  using length_lstrip_le [of "rstrip xs"]
  by (simp add: strip_alt rstrip_Cons lstrip_Cons lstrip_Nil)

lemma strip_snoc_length: "length (strip xs) \<le> length (strip (xs @ [x]))"
proof -
  have "length (strip (rev xs)) \<le> length (strip (x # rev xs))"
    by (rule strip_Cons_length)
  then have "length (strip (rev xs)) \<le> length (strip (rev (xs @ [x])))"
    by simp
  then show ?thesis
    unfolding strip_rev by simp
qed

lemma strip_drop_length: "length (strip (drop l xs)) \<le> length (strip xs)"
proof (induction xs arbitrary: l)
  case Nil
  then show ?case by simp
next
  case (Cons x xs)
  show ?case
  proof (cases l)
    case 0
    then show ?thesis by simp
  next
    case (Suc k)
    with Cons [of k] strip_Cons_length [of xs x] show ?thesis by simp
  qed
qed

lemma strip_take_length: "length (strip (take k xs)) \<le> length (strip xs)"
proof (induction xs arbitrary: k rule: rev_induct)
  case Nil
  then show ?case by simp
next
  case (snoc x xs)
  show ?case
  proof (cases "k \<le> length xs")
    case True
    with snoc [of k] strip_snoc_length [of xs x] show ?thesis by simp
  next
    case False
    then show ?thesis by simp
  qed
qed

lemma strip_slice_length: "length (strip (py_slice xs lo hi)) \<le> length (strip xs)"
proof -
  let ?l = "py_index lo (length xs)" and ?h = "py_index hi (length xs)"
  have "length (strip (take (?h - ?l) (drop ?l xs))) \<le> length (strip (drop ?l xs))"
    by (rule strip_take_length)
  also have "\<dots> \<le> length (strip xs)"
    by (rule strip_drop_length)
  finally show ?thesis
    by (simp add: py_slice_def Let_def)
qed

lemma lstrip_idem: "lstrip (lstrip s) = lstrip s"
  by (simp add: lstrip_def)

lemma rstrip_idem: "rstrip (rstrip s) = rstrip s"
  by (simp add: rstrip_def)

lemma strip_idem: "strip (strip s) = strip s"
proof -
  have "strip (strip s) = rstrip (lstrip (rstrip (lstrip s)))"
    by (simp add: strip_def)
  also have "\<dots> = rstrip (rstrip (lstrip (lstrip s)))"
    by (simp add: strip_commute)
  also have "\<dots> = strip s"
    by (simp add: rstrip_idem lstrip_idem strip_def)
  finally show ?thesis .
qed

lemma lstrip_hd: "lstrip s \<noteq> [] \<Longrightarrow> \<not> is_space (hd (lstrip s))"
  unfolding lstrip_def by (rule hd_dropWhile)

lemma rstrip_last: "rstrip s \<noteq> [] \<Longrightarrow> \<not> is_space (last (rstrip s))"
proof -
  assume ne: "rstrip s \<noteq> []"
  then have "dropWhile is_space (rev s) \<noteq> []"
    by (simp add: rstrip_def)
  then have "\<not> is_space (hd (dropWhile is_space (rev s)))"
    by (rule hd_dropWhile)
  moreover have "last (rstrip s) = hd (dropWhile is_space (rev s))"
    unfolding rstrip_def by (rule last_rev)
  ultimately show ?thesis by simp
qed

text \<open>A stripped string that is not empty has no whitespace at either end.\<close>

lemma strip_edges:
  assumes "strip s \<noteq> []"
  shows "\<not> is_space (hd (strip s))" and "\<not> is_space (last (strip s))"
proof -
  from assms have "lstrip (rstrip s) \<noteq> []" by (simp add: strip_alt)
  from lstrip_hd [OF this] show "\<not> is_space (hd (strip s))" by (simp add: strip_alt)
  from assms have "rstrip (lstrip s) \<noteq> []" by (simp add: strip_def)
  from rstrip_last [OF this] show "\<not> is_space (last (strip s))" by (simp add: strip_def)
qed

lemma rfind_bounds:
  assumes "rfind text sep lo hi \<noteq> - 1"
  shows "int (py_start lo (length text)) \<le> rfind text sep lo hi"
    and "rfind text sep lo hi + int (length sep) \<le> int (py_index hi (length text))"
proof -
  let ?l = "py_start lo (length text)" and ?h = "py_index hi (length text)"
  let ?m = "length sep"
  let ?c = "filter (\<lambda>i. take ?m (drop i text) = sep) (rev [?l ..< ?h - ?m + 1])"
  from assms have le: "\<not> ?h < ?l + ?m"
    by (auto simp: rfind_def Let_def)
  from assms le obtain i rest where c: "?c = i # rest" and r: "rfind text sep lo hi = int i"
    by (auto simp: rfind_def Let_def split: list.splits)
  from c have "i \<in> set ?c" by simp
  then have "?l \<le> i" "i < ?h - ?m + 1" by auto
  with le r show "int ?l \<le> rfind text sep lo hi"
    and "rfind text sep lo hi + int ?m \<le> int ?h" by auto
qed

section \<open>The chunker advances\<close>

lemma find_cut_bounds:
  assumes "find_cut text seps lo hi = Some e" and "\<forall>s \<in> set seps. s \<noteq> []"
  shows "int (py_start lo (length text)) < e \<and> e \<le> int (py_index hi (length text))"
  using assms
proof (induction seps)
  case Nil
  then show ?case by simp
next
  case (Cons sep seps)
  show ?case
  proof (cases "rfind text sep lo hi = - 1")
    case True
    with Cons show ?thesis by (simp add: Let_def)
  next
    case False
    with Cons.prems have e: "e = rfind text sep lo hi + int (length sep)"
      by (simp add: Let_def)
    from Cons.prems have "0 < length sep" by simp
    with rfind_bounds [OF False] e show ?thesis by linarith
  qed
qed

lemma separators_nonempty: "\<forall>s \<in> set separators. s \<noteq> []"
  by (simp add: separators_def)

lemma window_end_bounds:
  assumes "0 \<le> start" "0 < csize"
  shows "start + csize div 2 < window_end text csize start
         \<and> window_end text csize start \<le> start + csize"
proof (cases "start + csize < int (length text)")
  case False
  with assms show ?thesis
    by (auto simp: window_end_def Let_def)
next
  case True
  show ?thesis
  proof (cases "find_cut text separators (start + csize div 2) (start + csize)")
    case None
    with True assms show ?thesis
      by (auto simp: window_end_def Let_def)
  next
    case (Some e)
    from find_cut_bounds [OF Some separators_nonempty]
    have b: "int (py_start (start + csize div 2) (length text)) < e"
      "e \<le> int (py_index (start + csize) (length text))" by auto
    from assms True
    have "py_start (start + csize div 2) (length text) = nat (start + csize div 2)"
      "py_index (start + csize) (length text) = nat (start + csize)"
      by (auto simp: py_index_def py_start_def min_def)
    with b assms Some True show ?thesis
      by (simp add: window_end_def Let_def)
  qed
qed

text \<open>One unfolding of the loop, with the new chunk list and the next start named.\<close>

lemma chunk_loop_step:
  "chunk_loop text csize overlap start chunks =
     (if start < int (length text)
      then if int (length text) \<le> window_end text csize start - overlap
           then Some (chunks @ emitted text [(start, window_end text csize start)])
           else chunk_loop text csize overlap (window_end text csize start - overlap)
                  (chunks @ emitted text [(start, window_end text csize start)])
      else Some chunks)"
  by (subst chunk_loop.simps)
     (simp add: Let_def emitted_def window_chunk_def long_enough_def)

lemma emitted_Cons: "emitted text (w # ws) = emitted text [w] @ emitted text ws"
  by (simp add: emitted_def)

lemma emitted_Nil: "emitted text [] = []"
  by (simp add: emitted_def)

lemma covered_Cons: "covered (w # ws) p = ((0 \<le> fst w \<and> fst w \<le> int p \<and> int p < snd w) \<or> covered ws p)"
  by (simp add: covered_def)

text \<open>
  With \<open>0 \<le> overlap \<le> csize div 2\<close> every window ends more than \<open>overlap\<close>
  characters after its start, so the loop returns, and its windows leave no position of
  the text out.
\<close>

lemma chunk_loop_windows:
  assumes "0 < csize" "0 \<le> overlap" "overlap \<le> csize div 2" "0 \<le> start"
  shows "\<exists>ws. chunk_loop text csize overlap start chunks = Some (chunks @ emitted text ws)
              \<and> window_chain text csize overlap start ws
              \<and> (\<forall>p. start \<le> int p \<and> p < length text \<longrightarrow> covered ws p)"
  using assms(4)
proof (induction "nat (int (length text) - start)" arbitrary: start chunks rule: less_induct)
  case less
  let ?n = "int (length text)"
  let ?e = "window_end text csize start"
  show ?case
  proof (cases "start < ?n")
    case False
    then have "chunk_loop text csize overlap start chunks = Some (chunks @ emitted text [])"
      by (subst chunk_loop_step) (simp add: emitted_Nil)
    moreover from False have "window_chain text csize overlap start []" by simp
    moreover from False have "\<forall>p. start \<le> int p \<and> p < length text \<longrightarrow> covered [] p" by auto
    ultimately show ?thesis by blast
  next
    case True
    from window_end_bounds [of start csize "text"] less.prems assms
    have adv: "start < ?e - overlap" and ge: "start < ?e" by linarith+
    show ?thesis
    proof (cases "?n \<le> ?e - overlap")
      case stop: True
      with True
      have "chunk_loop text csize overlap start chunks = Some (chunks @ emitted text [(start, ?e)])"
        by (subst chunk_loop_step) simp
      moreover from True stop have "window_chain text csize overlap start [(start, ?e)]"
        by simp
      moreover have "\<forall>p. start \<le> int p \<and> p < length text \<longrightarrow> covered [(start, ?e)] p"
        using stop assms(2) less.prems by (auto simp: covered_def)
      ultimately show ?thesis by blast
    next
      case go: False
      with adv less.prems True
      have m: "nat (?n - (?e - overlap)) < nat (?n - start)" and nn: "0 \<le> ?e - overlap"
        by linarith+
      from less.hyps [OF m nn, of "chunks @ emitted text [(start, ?e)]"]
      obtain ws where
        r: "chunk_loop text csize overlap (?e - overlap) (chunks @ emitted text [(start, ?e)])
              = Some ((chunks @ emitted text [(start, ?e)]) @ emitted text ws)"
        and c: "window_chain text csize overlap (?e - overlap) ws"
        and v: "\<forall>p. ?e - overlap \<le> int p \<and> p < length text \<longrightarrow> covered ws p"
        by blast
      from True go r
      have "chunk_loop text csize overlap start chunks
              = Some (chunks @ emitted text ((start, ?e) # ws))"
        by (subst chunk_loop_step) (simp add: emitted_Cons [of "text" "(start, ?e)" ws])
      moreover from True c have "window_chain text csize overlap start ((start, ?e) # ws)"
        by simp
      moreover have "\<forall>p. start \<le> int p \<and> p < length text \<longrightarrow> covered ((start, ?e) # ws) p"
      proof (intro allI impI)
        fix p
        assume p: "start \<le> int p \<and> p < length text"
        show "covered ((start, ?e) # ws) p"
        proof (cases "int p < ?e")
          case True
          with p less.prems show ?thesis by (simp add: covered_Cons)
        next
          case False
          with assms(2) have "?e - overlap \<le> int p" by linarith
          with p v have "covered ws p" by blast
          then show ?thesis by (simp add: covered_Cons)
        qed
      qed
      ultimately show ?thesis by blast
    qed
  qed
qed

lemma chunk_text_returns:
  assumes "0 < csize" "0 \<le> overlap" "overlap \<le> csize div 2"
  shows "\<exists>chunks. chunk_text csize overlap text = Some chunks"
  using chunk_loop_windows [OF assms, of 0 "text" "[]"]
  by (auto simp: chunk_text_def)

section \<open>The floor on emitted chunks\<close>

lemma chunk_loop_floor:
  assumes "chunk_loop text csize overlap start chunks = Some res"
  shows "(\<forall>c \<in> set chunks. floor_ok text c) \<longrightarrow> (\<forall>c \<in> set res. floor_ok text c)"
  using assms
proof (rule chunk_loop.raw_induct [rotated 1,
        where P = "\<lambda>t s ov st ch y.
          (\<forall>c \<in> set ch. floor_ok t c) \<longrightarrow> (\<forall>c \<in> set y. floor_ok t c)"],
       goal_cases)
  case (1 f t s ov st ch y)
  note IH = "1"(1) and body = "1"(2)
  define chunk where "chunk = strip (py_slice t st (window_end t s st))"
  define ch' where "ch' = (if chunk \<noteq> [] \<and> 50 < length chunk then ch @ [chunk] else ch)"
  show ?case
  proof
    assume inv: "\<forall>c \<in> set ch. floor_ok t c"
    have "50 < length chunk \<Longrightarrow> floor_ok t chunk"
      by (simp add: floor_ok_def chunk_def strip_idem strip_slice_length)
    with inv have inv': "\<forall>c \<in> set ch'. floor_ok t c"
      by (simp add: ch'_def)
    from body have step:
      "(if st < int (length t)
        then if int (length t) \<le> window_end t s st - ov then Some ch'
             else f t s ov (window_end t s st - ov) ch'
        else Some ch) = Some y"
      unfolding ch'_def chunk_def Let_def .
    show "\<forall>c \<in> set y. floor_ok t c"
    proof (cases "st < int (length t)")
      case False
      with step inv show ?thesis by simp
    next
      case True
      show ?thesis
      proof (cases "int (length t) \<le> window_end t s st - ov")
        case True
        with \<open>st < int (length t)\<close> step have "y = ch'" by simp
        with inv' show ?thesis by simp
      next
        case False
        with \<open>st < int (length t)\<close> step
        have "f t s ov (window_end t s st - ov) ch' = Some y" by simp
        from IH [OF this] inv' show ?thesis by (rule mp)
      qed
    qed
  qed
qed

lemma chunk_text_floor:
  assumes "chunk_text csize overlap text = Some chunks" and "c \<in> set chunks"
  shows "floor_ok text c"
  using chunk_loop_floor [of "text" csize overlap 0 "[]" chunks] assms
  by (simp add: chunk_text_def)

lemma chunk_text_edges:
  assumes "chunk_text csize overlap text = Some chunks" and "c \<in> set chunks"
  shows "\<not> is_space (hd c) \<and> \<not> is_space (last c) \<and> strip c = c \<and> 50 < length c"
proof -
  from chunk_text_floor [OF assms] have s: "strip c = c" and l: "50 < length c"
    by (simp_all add: floor_ok_def)
  from l have "c \<noteq> []" by auto
  with s have "strip c \<noteq> []" by simp
  from strip_edges [OF this] s l show ?thesis by simp
qed

lemma chunk_text_short:
  assumes "chunk_text csize overlap text = Some chunks" and "length (strip text) \<le> 50"
  shows "chunks = []"
proof (cases chunks)
  case Nil
  then show ?thesis .
next
  case (Cons c cs)
  with chunk_text_floor [OF assms(1), of c] have "floor_ok text c" by simp
  with assms(2) show ?thesis by (simp add: floor_ok_def)
qed

lemma chunk_text_empty: "chunk_text csize overlap [] = Some []"
  unfolding chunk_text_def by (subst chunk_loop.simps) simp

section \<open>Chunker: the claims\<close>

lemma gap_text_length: "length gap_text = 96"
  by (simp add: gap_text_def)

lemma gap_text_chunks: "chunk_text 60 0 gap_text = Some [replicate 60 CHR ''c'']"
  by code_simp

text \<open>
  C1 (as stated, refuted). With \<open>csize = 60\<close> and \<open>overlap = 0\<close> the first window of
  \<open>gap_text\<close> is cut after the line break at index 35; its 35 letters are below the floor
  and are dropped, the second window is emitted. The dropped fragment is at the start of
  the text, not at its end, and the emitted chunk is not a cover of the text up to a short
  tail.
\<close>

theorem coverage_gap:
  "chunk_text 60 0 gap_text = Some [replicate 60 CHR ''c'']
   \<and> \<not> covers_except_tail gap_text 0 [replicate 60 CHR ''c'']"
proof -
  have "\<not> covers_except_tail gap_text 0 [replicate 60 CHR ''c'']"
    by code_simp
  with gap_text_chunks show ?thesis by simp
qed

text \<open>
  C1 (amended). For \<open>0 < csize\<close> and \<open>0 \<le> overlap \<le> csize div 2\<close>, \<open>chunk_text\<close>
  returns, and there is a list of windows \<open>[start, end)\<close>, the first starting at 0, each
  next one starting \<open>overlap\<close> characters before the previous end, the last one reaching
  the end of the text, such that every position of the text lies in a window and the
  returned chunks are, in order, the stripped windows longer than 50 characters. What the
  chunks leave out is the whitespace at the edges of a window and every window that
  strips to 50 characters or fewer, wherever it lies.
\<close>

theorem chunk_text_windows:
  assumes "0 < csize" "0 \<le> overlap" "overlap \<le> csize div 2"
  shows "\<exists>ws. chunk_text csize overlap text = Some (emitted text ws)
              \<and> window_chain text csize overlap 0 ws
              \<and> (\<forall>p < length text. covered ws p)"
proof -
  from chunk_loop_windows [OF assms, of 0 "text" "[]"]
  obtain ws where "chunk_loop text csize overlap 0 [] = Some ([] @ emitted text ws)"
    and "window_chain text csize overlap 0 ws"
    and "\<forall>p. 0 \<le> int p \<and> p < length text \<longrightarrow> covered ws p"
    by blast
  then show ?thesis
    by (auto simp: chunk_text_def)
qed

theorem chunk_text_windows_witness:
  "(0::int) < 60 \<and> (0::int) \<le> 0 \<and> (0::int) \<le> 60 div 2
   \<and> (\<exists>ws. chunk_text 60 0 gap_text = Some (emitted gap_text ws)
            \<and> window_chain gap_text 60 0 0 ws \<and> covered ws 0 \<and> covered ws 95)"
proof -
  have h: "(0::int) < 60" "(0::int) \<le> 0" "(0::int) \<le> 60 div 2" by simp_all
  from chunk_text_windows [OF h, of gap_text]
  obtain ws where "chunk_text 60 0 gap_text = Some (emitted gap_text ws)"
    and "window_chain gap_text 60 0 0 ws" and c: "\<forall>p < length gap_text. covered ws p"
    by blast
  moreover from c have "covered ws 0" "covered ws 95"
    by (simp_all add: gap_text_length)
  ultimately show ?thesis using h by blast
qed

lemma stuck_len: "length stuck_text = 20"
  by (simp add: stuck_text_def)

lemma stuck_end0: "window_end stuck_text 10 0 = 7"
  by code_simp

lemma stuck_end1: "window_end stuck_text 10 (- 1) = 7"
  by code_simp

lemma stuck_chunk0: "strip (py_slice stuck_text 0 7) = ''aaaaa.''"
  by code_simp

lemma stuck_chunk1: "strip (py_slice stuck_text (- 1) 7) = []"
  by code_simp

text \<open>
  From start 0 the separator \<open>''. ''\<close> at index 5 cuts the window at 7, and the next
  start is \<open>7 - 8 = -1\<close>; from start \<open>-1\<close> the same cut is found again. No run that
  visits one of these two starts returns.
\<close>

lemma stuck_loop:
  assumes "chunk_loop t s ov st ch = Some y"
  shows "\<not> (t = stuck_text \<and> s = 10 \<and> ov = 8 \<and> (st = 0 \<or> st = - 1))"
  using assms
proof (rule chunk_loop.raw_induct [rotated 1,
        where P = "\<lambda>t s ov st ch y.
          \<not> (t = stuck_text \<and> s = 10 \<and> ov = 8 \<and> (st = 0 \<or> st = - 1))"],
       goal_cases)
  case (1 f t s ov st ch y)
  note IH = "1"(1) and body = "1"(2)
  show ?case
  proof
    assume a: "t = stuck_text \<and> s = 10 \<and> ov = 8 \<and> (st = 0 \<or> st = - 1)"
    have "f stuck_text 10 8 (- 1) ch = Some y"
    proof (cases "st = 0")
      case True
      with a body show ?thesis
        by (simp add: stuck_len stuck_end0 stuck_chunk0 Let_def)
    next
      case False
      with a have "st = - 1" by simp
      with a body show ?thesis
        by (simp add: stuck_len stuck_end1 stuck_chunk1 Let_def)
    qed
    from IH [OF this] show False by simp
  qed
qed

lemma stuck_text_no_result: "chunk_text 10 8 stuck_text = None"
proof (cases "chunk_text 10 8 stuck_text")
  case None
  then show ?thesis .
next
  case (Some y)
  then have "chunk_loop stuck_text 10 8 0 [] = Some y"
    by (simp add: chunk_text_def)
  from stuck_loop [OF this] show ?thesis by simp
qed

text \<open>
  C2 (as stated, refuted). \<open>csize = 10\<close> and \<open>overlap = 8\<close> satisfy
  \<open>0 \<le> overlap < csize\<close>, and \<open>chunk_text\<close> does not return on \<open>stuck_text\<close>.
\<close>

theorem chunk_text_stuck:
  "(0::int) \<le> 8 \<and> (8::int) < 10 \<and> chunk_text 10 8 stuck_text = None"
  using stuck_text_no_result by simp

text \<open>
  C2 (amended). For \<open>0 < csize\<close> and \<open>0 \<le> overlap \<le> csize div 2\<close>, \<open>chunk_text\<close>
  returns on every text, and the start of the window strictly increases in each iteration:
  from a start \<open>\<ge> 0\<close> the next start, \<open>window_end - overlap\<close>, is larger.
\<close>

theorem chunk_text_terminates:
  assumes "0 < csize" "0 \<le> overlap" "overlap \<le> csize div 2"
  shows "(\<exists>chunks. chunk_text csize overlap text = Some chunks)
         \<and> (\<forall>start. 0 \<le> start \<longrightarrow> start < window_end text csize start - overlap)"
proof
  show "\<exists>chunks. chunk_text csize overlap text = Some chunks"
    by (rule chunk_text_returns [OF assms])
  show "\<forall>start. 0 \<le> start \<longrightarrow> start < window_end text csize start - overlap"
  proof (intro allI impI)
    fix start :: int
    assume "0 \<le> start"
    from window_end_bounds [OF this assms(1), of "text"] assms
    show "start < window_end text csize start - overlap" by linarith
  qed
qed

theorem chunk_text_terminates_witness:
  "(0::int) < 10 \<and> (0::int) \<le> 5 \<and> (5::int) \<le> 10 div 2
   \<and> (\<exists>chunks. chunk_text 10 5 stuck_text = Some chunks)
   \<and> (0::int) \<le> 0 \<and> 0 < window_end stuck_text 10 0 - 5"
proof -
  have h: "(0::int) < 10" "(0::int) \<le> 5" "(5::int) \<le> 10 div 2" by simp_all
  from chunk_text_terminates [OF h, of stuck_text]
  have r: "\<exists>chunks. chunk_text 10 5 stuck_text = Some chunks"
    and a: "\<forall>start. 0 \<le> start \<longrightarrow> start < window_end stuck_text 10 start - 5"
    by blast+
  from a [rule_format, of 0] have "(0::int) < window_end stuck_text 10 0 - 5" by simp
  with r h show ?thesis by simp
qed

lemma pad_text_chunks: "chunk_text 100 0 pad_text = Some [replicate 60 CHR ''c'']"
  by code_simp

lemma stuck_text_short: "length (strip stuck_text) \<le> 50"
  by code_simp

text \<open>
  C10 (as stated, refuted). \<open>stuck_text\<close> strips to 20 characters, and with
  \<open>csize = 10\<close> and \<open>overlap = 8\<close> \<open>chunk_text\<close> does not yield the empty list on
  it: it does not return.
\<close>

theorem chunk_floor_no_result:
  "length (strip stuck_text) \<le> 50 \<and> chunk_text 10 8 stuck_text = None
   \<and> chunk_text 10 8 stuck_text \<noteq> Some []"
  using stuck_text_short stuck_text_no_result by simp

text \<open>
  C10 (amended). For every configuration, every chunk that \<open>chunk_text\<close> returns has no
  whitespace at its first or last character (it equals its own \<open>strip\<close>) and is longer
  than 50 characters; when \<open>chunk_text\<close> returns on a text that strips to 50 characters
  or fewer, it returns the empty list; and on the empty text it returns the empty list.
  For \<open>0 < csize\<close> and \<open>0 \<le> overlap \<le> csize div 2\<close>, \<open>chunk_text\<close> does return:
  its result is the list of the stripped windows of the loop that are longer than 50
  characters, so a window that strips to 50 characters or fewer is dropped wherever it
  lies, and a text that strips to 50 characters or fewer yields the empty list. (For
  other configurations the loop may not return.)
\<close>

theorem chunk_floor:
  "(\<forall>chunks. chunk_text csize overlap text = Some chunks \<longrightarrow>
       (\<forall>c \<in> set chunks. \<not> is_space (hd c) \<and> \<not> is_space (last c) \<and> strip c = c
                           \<and> 50 < length c)
       \<and> (length (strip text) \<le> 50 \<longrightarrow> chunks = []))
   \<and> chunk_text csize overlap [] = Some []
   \<and> (0 < csize \<and> 0 \<le> overlap \<and> overlap \<le> csize div 2 \<longrightarrow>
        (\<exists>ws. window_chain text csize overlap 0 ws
              \<and> chunk_text csize overlap text
                  = Some (filter long_enough (map (window_chunk text) ws))))
   \<and> (0 < csize \<and> 0 \<le> overlap \<and> overlap \<le> csize div 2 \<and> length (strip text) \<le> 50
        \<longrightarrow> chunk_text csize overlap text = Some [])"
proof (intro conjI allI impI)
  fix chunks
  assume r: "chunk_text csize overlap text = Some chunks"
  show "\<forall>c \<in> set chunks. \<not> is_space (hd c) \<and> \<not> is_space (last c) \<and> strip c = c
                           \<and> 50 < length c"
    using chunk_text_edges [OF r] by blast
  show "chunks = []" if "length (strip text) \<le> 50"
    using chunk_text_short [OF r that] .
next
  show "chunk_text csize overlap [] = Some []"
    by (rule chunk_text_empty)
next
  assume a: "0 < csize \<and> 0 \<le> overlap \<and> overlap \<le> csize div 2"
  then have h: "0 < csize" "0 \<le> overlap" "overlap \<le> csize div 2" by simp_all
  from chunk_loop_windows [OF h, of 0 "text" "[]"]
  obtain ws where "chunk_loop text csize overlap 0 [] = Some ([] @ emitted text ws)"
    and "window_chain text csize overlap 0 ws"
    by blast
  then show "\<exists>ws. window_chain text csize overlap 0 ws
              \<and> chunk_text csize overlap text
                  = Some (filter long_enough (map (window_chunk text) ws))"
    by (auto simp: chunk_text_def emitted_def)
next
  assume a: "0 < csize \<and> 0 \<le> overlap \<and> overlap \<le> csize div 2 \<and> length (strip text) \<le> 50"
  then obtain chunks where r: "chunk_text csize overlap text = Some chunks"
    using chunk_text_returns [of csize overlap "text"] by blast
  with a chunk_text_short [OF r] show "chunk_text csize overlap text = Some []"
    by simp
qed

theorem chunk_floor_witness:
  "chunk_text 100 0 pad_text = Some [replicate 60 CHR ''c'']
   \<and> \<not> is_space (hd (replicate 60 CHR ''c'')) \<and> \<not> is_space (last (replicate 60 CHR ''c''))
   \<and> strip (replicate 60 CHR ''c'') = replicate 60 CHR ''c''
   \<and> 50 < length (replicate 60 CHR ''c'')
   \<and> (0::int) < 60 \<and> (0::int) \<le> 0 \<and> (0::int) \<le> 60 div 2
   \<and> length (strip ''  too short to keep  '') \<le> 50
   \<and> chunk_text 60 0 ''  too short to keep  '' = Some []
   \<and> (\<exists>ws. window_chain gap_text 60 0 0 ws
          \<and> chunk_text 60 0 gap_text = Some (filter long_enough (map (window_chunk gap_text) ws)))"
proof -
  have s: "length (strip ''  too short to keep  '') \<le> 50"
    by code_simp
  from chunk_floor [of 100 0 pad_text] pad_text_chunks
  have e: "\<not> is_space (hd (replicate 60 CHR ''c''))" "\<not> is_space (last (replicate 60 CHR ''c''))"
    "strip (replicate 60 CHR ''c'') = replicate 60 CHR ''c''"
    "50 < length (replicate 60 CHR ''c'')"
    by simp_all
  from chunk_floor [of 60 0 "''  too short to keep  ''"] s
  have t: "chunk_text 60 0 ''  too short to keep  '' = Some []"
    by simp
  from chunk_floor [of 60 0 gap_text]
  have w: "\<exists>ws. window_chain gap_text 60 0 0 ws
          \<and> chunk_text 60 0 gap_text = Some (filter long_enough (map (window_chunk gap_text) ws))"
    by simp
  from pad_text_chunks e s t w show ?thesis by simp
qed

section \<open>Slices at natural bounds\<close>

lemma py_index_nat: "py_index (int i) n = min i n"
  by (simp add: py_index_def py_start_def)

lemma py_slice_nat: "py_slice xs (int i) (int j) = take (j - i) (drop i xs)"
proof (cases "i \<le> length xs")
  case True
  then show ?thesis
    by (cases "j \<le> length xs") (simp_all add: py_slice_def py_index_nat min_def)
next
  case False
  then show ?thesis
    by (simp add: py_slice_def py_index_nat min_def)
qed

section \<open>Chunks and metadata of a document list\<close>

lemma append_doc_chunks_from:
  "foldl (\<lambda>(all_chunks, all_metadata) (i, chunk).
            (all_chunks @ [chunk], all_metadata @ [doc_metadata doc i n]))
     (cs, ms) (enumerate k xs)
   = (cs @ xs, ms @ map (\<lambda>i. doc_metadata doc i n) [k ..< k + length xs])"
proof (induction xs arbitrary: k cs ms)
  case Nil
  then show ?case by simp
next
  case (Cons x xs)
  have "[k ..< k + length (x # xs)] = k # [Suc k ..< Suc k + length xs]"
    by (subst upt_rec) simp
  with Cons [of "cs @ [x]" "ms @ [doc_metadata doc k n]" "Suc k"] show ?case
    by simp
qed

lemma append_doc_chunks_eq:
  "append_doc_chunks doc chunks (cs, ms) = (cs @ chunks, ms @ doc_metadatas doc (length chunks))"
  unfolding append_doc_chunks_def doc_metadatas_def
  using append_doc_chunks_from [of doc "length chunks" cs ms 0 chunks] by simp

lemma chunk_documents_loop_eq:
  "chunk_documents_loop cfg docs (cs, ms) =
     map_option (\<lambda>per_doc. (cs @ concat per_doc,
                  ms @ concat (map (\<lambda>(d, c). doc_metadatas d (length c)) (zip docs per_doc))))
       (those (map (doc_chunks cfg) docs))"
proof (induction docs arbitrary: cs ms)
  case Nil
  then show ?case by simp
next
  case (Cons doc docs)
  show ?case
  proof (cases "doc_chunks cfg doc")
    case None
    then show ?thesis by (simp add: doc_chunks_def)
  next
    case (Some chunks)
    then have "chunk_documents_loop cfg (doc # docs) (cs, ms)
                 = chunk_documents_loop cfg docs (cs @ chunks, ms @ doc_metadatas doc (length chunks))"
      by (simp add: doc_chunks_def append_doc_chunks_eq)
    with Cons Some show ?thesis
      by (cases "those (map (doc_chunks cfg) docs)") simp_all
  qed
qed

lemma chunk_documents_eq:
  "chunk_documents cfg docs =
     map_option (\<lambda>per_doc. (concat per_doc,
                  concat (map (\<lambda>(d, c). doc_metadatas d (length c)) (zip docs per_doc))))
       (those (map (doc_chunks cfg) docs))"
  by (simp add: chunk_documents_def chunk_documents_loop_eq)

lemma length_doc_metadatas: "length (doc_metadatas d n) = n"
  by (simp add: doc_metadatas_def)

lemma those_length: "those xs = Some ys \<Longrightarrow> length ys = length xs"
  by (induction xs arbitrary: ys) (auto split: option.splits)

lemma those_nth: "those xs = Some ys \<Longrightarrow> k < length xs \<Longrightarrow> xs ! k = Some (ys ! k)"
proof (induction xs arbitrary: ys k)
  case Nil
  then show ?case by simp
next
  case (Cons x xs)
  then show ?case by (cases k) (auto split: option.splits)
qed

lemma length_concat_metadatas:
  "length docs = length per_doc \<Longrightarrow>
   length (concat (map (\<lambda>(d, c). doc_metadatas d (length c)) (zip docs per_doc)))
     = length (concat per_doc)"
  by (induction docs per_doc rule: list_induct2) (simp_all add: length_doc_metadatas)

lemma chunk_documents_lengths:
  assumes "chunk_documents cfg docs = Some (chunks, metadata)"
  shows "length metadata = length chunks"
proof -
  from assms obtain per_doc where t: "those (map (doc_chunks cfg) docs) = Some per_doc"
    and c: "chunks = concat per_doc"
    and m: "metadata = concat (map (\<lambda>(d, c). doc_metadatas d (length c)) (zip docs per_doc))"
    by (auto simp: chunk_documents_eq)
  from those_length [OF t] have "length docs = length per_doc" by simp
  from length_concat_metadatas [OF this] c m show ?thesis by simp
qed

section \<open>The embedder\<close>

lemma div_add_one:
  assumes "0 < (bs::nat)"
  shows "(a + bs) div bs = Suc (a div bs)"
  using assms div_add_self2 [of bs a] by simp

lemma ceil_div_step:
  assumes "0 < (bs::nat)" "0 < m"
  shows "(m + bs - 1) div bs = Suc ((m - bs + bs - 1) div bs)"
proof (cases "bs \<le> m")
  case True
  define a where "a = m - bs + bs - 1"
  from True assms have "m + bs - 1 = a + bs" by (simp add: a_def)
  with div_add_one [OF assms(1), of a] show ?thesis by (simp only: a_def)
next
  case False
  define a where "a = m - 1"
  from False assms have "m + bs - 1 = a + bs" and small: "a < bs" by (simp_all add: a_def)
  with div_add_one [OF assms(1), of a] have "(m + bs - 1) div bs = Suc 0" by simp
  moreover from False assms have "(m - bs + bs - 1) div bs = 0" by simp
  ultimately show ?thesis by simp
qed

text \<open>
  The loop from index \<open>i\<close>, against a capability that embeds each text of a batch by
  \<open>f\<close>, in the order of the batch.
\<close>

lemma embed_loop_stub:
  assumes stub: "\<And>batch. embeddings_create remote (embed_model cfg) batch = Inr (map f batch)"
    and pos: "0 < bs"
  shows "\<exists>batches.
           embed_loop cfg remote texts bs i (calls, acc)
             = (calls @ map (EmbedCall (embed_model cfg)) batches, Inr (acc @ map f (drop i texts)))
           \<and> concat batches = drop i texts
           \<and> (\<forall>b \<in> set batches. b \<noteq> [] \<and> length b \<le> bs)
           \<and> (\<forall>b \<in> set (butlast batches). length b = bs)
           \<and> length batches = (length texts - i + bs - 1) div bs"
proof (induction "length texts - i" arbitrary: i calls acc rule: less_induct)
  case less
  show ?case
  proof (cases "length texts \<le> i")
    case True
    with pos have "embed_loop cfg remote texts bs i (calls, acc)
            = (calls @ map (EmbedCall (embed_model cfg)) [], Inr (acc @ map f (drop i texts)))"
      by (simp add: embed_loop.simps)
    moreover from True pos have "(length texts - i + bs - 1) div bs = 0" by simp
    ultimately show ?thesis using True by (intro exI [of _ "[]"]) simp
  next
    case False
    define batch where "batch = take bs (drop i texts)"
    have sl: "py_slice texts (int i) (int i + int bs) = batch"
      using py_slice_nat [of texts i "i + bs"] by (simp add: batch_def)
    from False pos have ne: "batch \<noteq> []" and le: "length batch \<le> bs"
      by (simp_all add: batch_def)
    from False pos have m: "length texts - (i + bs) < length texts - i" by simp
    from less [OF m, of "calls @ [EmbedCall (embed_model cfg) batch]" "acc @ map f batch"]
    obtain rest where
      r: "embed_loop cfg remote texts bs (i + bs)
            (calls @ [EmbedCall (embed_model cfg) batch], acc @ map f batch)
          = ((calls @ [EmbedCall (embed_model cfg) batch]) @ map (EmbedCall (embed_model cfg)) rest,
             Inr ((acc @ map f batch) @ map f (drop (i + bs) texts)))"
      and c: "concat rest = drop (i + bs) texts"
      and b: "\<forall>b \<in> set rest. b \<noteq> [] \<and> length b \<le> bs"
      and bl: "\<forall>b \<in> set (butlast rest). length b = bs"
      and n: "length rest = (length texts - (i + bs) + bs - 1) div bs"
      by blast
    have split: "batch @ drop (i + bs) texts = drop i texts"
    proof -
      have "take bs (drop i texts) @ drop bs (drop i texts) = drop i texts"
        by (rule append_take_drop_id)
      then show ?thesis
        by (simp only: batch_def drop_drop add.commute [of i bs])
    qed
    from False pos r have
      "embed_loop cfg remote texts bs i (calls, acc)
         = (calls @ map (EmbedCall (embed_model cfg)) (batch # rest),
            Inr (acc @ map f (drop i texts)))"
      by (subst embed_loop.simps) (simp add: sl stub Let_def flip: split)
    moreover from c split have "concat (batch # rest) = drop i texts" by simp
    moreover from b ne le have "\<forall>b \<in> set (batch # rest). b \<noteq> [] \<and> length b \<le> bs" by simp
    moreover have "\<forall>b \<in> set (butlast (batch # rest)). length b = bs"
    proof (cases "rest = []")
      case True
      then show ?thesis by simp
    next
      case False
      with c b have "drop (i + bs) texts \<noteq> []"
        by (cases rest) auto
      then have "i + bs < length texts" by simp
      then have "length batch = bs" by (simp add: batch_def)
      with bl False show ?thesis by simp
    qed
    moreover from False pos n have "length (batch # rest) = (length texts - i + bs - 1) div bs"
      using ceil_div_step [of bs "length texts - i"] by (simp add: diff_diff_left)
    ultimately show ?thesis by blast
  qed
qed

lemma embed_texts_stub:
  assumes key: "get_client cfg env_key = Inr key"
    and stub: "\<And>batch. embeddings_create remote (embed_model cfg) batch = Inr (map f batch)"
    and pos: "1 \<le> batch_size"
  shows "\<exists>batches.
           embed_texts cfg env_key remote texts batch_size
             = (map (EmbedCall (embed_model cfg)) batches, Inr (map f texts))
           \<and> concat batches = texts
           \<and> (\<forall>b \<in> set batches. b \<noteq> [] \<and> int (length b) \<le> batch_size)
           \<and> (\<forall>b \<in> set (butlast batches). int (length b) = batch_size)
           \<and> int (length batches) = (int (length texts) + batch_size - 1) div batch_size"
proof -
  from pos have p: "0 < nat batch_size" by simp
  from embed_loop_stub [OF stub p, of texts 0 "[]" "[]"]
  obtain batches where
    r: "embed_loop cfg remote texts (nat batch_size) 0 ([], [])
          = (map (EmbedCall (embed_model cfg)) batches, Inr (map f texts))"
    and c: "concat batches = texts"
    and b: "\<forall>b \<in> set batches. b \<noteq> [] \<and> length b \<le> nat batch_size"
    and bl: "\<forall>b \<in> set (butlast batches). length b = nat batch_size"
    and n: "length batches = (length texts + nat batch_size - 1) div nat batch_size"
    by auto
  from pos key r have "embed_texts cfg env_key remote texts batch_size
             = (map (EmbedCall (embed_model cfg)) batches, Inr (map f texts))"
    by (simp add: embed_texts_def)
  moreover from b pos have "\<forall>b \<in> set batches. b \<noteq> [] \<and> int (length b) \<le> batch_size"
    by auto
  moreover from bl pos have "\<forall>b \<in> set (butlast batches). int (length b) = batch_size"
    by auto
  moreover have "int (length batches) = (int (length texts) + batch_size - 1) div batch_size"
  proof -
    from pos have "int (length texts + nat batch_size - 1) = int (length texts) + batch_size - 1"
      by simp
    moreover have "int ((length texts + nat batch_size - 1) div nat batch_size)
                     = int (length texts + nat batch_size - 1) div int (nat batch_size)"
      by (rule zdiv_int)
    ultimately show ?thesis using n pos by simp
  qed
  ultimately show ?thesis using c by blast
qed

text \<open>
  C4. For a batch size \<open>\<ge> 1\<close>, with an API key, against a capability that embeds each
  text of a batch by \<open>f\<close> in the order of the batch: \<open>embed_texts\<close> calls the capability
  once per batch, the batches being consecutive pieces of the input (their concatenation
  is the input), none empty, none longer than the batch size and all but the last of
  exactly that size; and it returns as many vectors as texts, the \<open>i\<close>-th vector being
  \<open>f\<close> of the \<open>i\<close>-th text.
\<close>

theorem embed_texts_order:
  assumes "1 \<le> batch_size"
    and "get_client cfg env_key = Inr key"
    and "\<forall>batch. embeddings_create remote (embed_model cfg) batch = Inr (map f batch)"
  shows "\<exists>batches vectors.
           embed_texts cfg env_key remote texts batch_size
             = (map (EmbedCall (embed_model cfg)) batches, Inr vectors)
           \<and> concat batches = texts
           \<and> (\<forall>b \<in> set batches. b \<noteq> [] \<and> int (length b) \<le> batch_size)
           \<and> (\<forall>b \<in> set (butlast batches). int (length b) = batch_size)
           \<and> int (length batches) = (int (length texts) + batch_size - 1) div batch_size
           \<and> length vectors = length texts
           \<and> (\<forall>i < length texts. vectors ! i = f (texts ! i))"
proof -
  from assms(3) have stub: "\<And>batch. embeddings_create remote (embed_model cfg) batch = Inr (map f batch)"
    by simp
  from embed_texts_stub [OF assms(2) stub assms(1), of texts]
  obtain batches where
    "embed_texts cfg env_key remote texts batch_size
       = (map (EmbedCall (embed_model cfg)) batches, Inr (map f texts))"
    "concat batches = texts"
    "\<forall>b \<in> set batches. b \<noteq> [] \<and> int (length b) \<le> batch_size"
    "\<forall>b \<in> set (butlast batches). int (length b) = batch_size"
    "int (length batches) = (int (length texts) + batch_size - 1) div batch_size"
    by blast
  moreover have "length (map f texts) = length texts"
    "\<forall>i < length texts. map f texts ! i = f (texts ! i)"
    by simp_all
  ultimately show ?thesis by blast
qed

lemma sample_embed:
  "embed_texts sample_config [] sample_remote [''a'', ''bb'', ''ccc''] 2
     = ([EmbedCall ''mistral-embed'' [''a'', ''bb''], EmbedCall ''mistral-embed'' [''ccc'']],
        Inr [1, 2, 3])"
  by code_simp

theorem embed_texts_order_witness:
  "(1::int) \<le> 2 \<and> get_client sample_config [] = Inr ''key''
   \<and> embed_texts sample_config [] sample_remote [''a'', ''bb'', ''ccc''] 2
       = ([EmbedCall ''mistral-embed'' [''a'', ''bb''], EmbedCall ''mistral-embed'' [''ccc'']],
          Inr [1, 2, 3])
   \<and> [1, 2, 3] ! 2 = length (''ccc'')"
proof -
  have h1: "(1::int) \<le> 2" by simp
  have h2: "get_client sample_config [] = Inr ''key''"
    by (simp add: get_client_def sample_config_def)
  have h3: "\<forall>batch. embeddings_create sample_remote (embed_model sample_config) batch
              = Inr (map length batch)"
    by (simp add: sample_remote_def)
  from embed_texts_order [OF h1 h2 h3, of "[''a'', ''bb'', ''ccc'']"]
  obtain batches vectors where
    e: "embed_texts sample_config [] sample_remote [''a'', ''bb'', ''ccc''] 2
          = (map (EmbedCall (embed_model sample_config)) batches, Inr vectors)"
    and v: "\<forall>i < length [''a'', ''bb'', ''ccc'']. vectors ! i = length ([''a'', ''bb'', ''ccc''] ! i)"
    by blast
  from e sample_embed have "vectors = [1, 2, 3]" by simp
  with v have "[1, 2, 3] ! 2 = length (''ccc'')" by auto
  with h1 h2 sample_embed show ?thesis by simp
qed

section \<open>Generated ids\<close>

lemma digit_val_char: "d < 10 \<Longrightarrow> digit_val (digit_char d) = d"
  by (simp add: digit_val_def digit_char_def)

lemma parse_nat_snoc: "parse_nat (s @ [c]) = 10 * parse_nat s + digit_val c"
  by (simp add: parse_nat_def)

lemma parse_nat_str_nat: "parse_nat (str_nat n) = n"
proof (induction n rule: str_nat.induct)
  case (1 n)
  show ?case
  proof (cases "n < 10")
    case True
    then show ?thesis
      by (subst str_nat.simps) (simp add: parse_nat_def digit_val_char)
  next
    case False
    with 1 have "parse_nat (str_nat (n div 10)) = n div 10" by simp
    with False show ?thesis
      by (subst str_nat.simps) (simp add: parse_nat_snoc digit_val_char)
  qed
qed

lemma digit_val_zero: "digit_val CHR ''0'' = 0"
  by (simp add: digit_val_def)

lemma parse_nat_zeros: "parse_nat (replicate k CHR ''0'' @ s) = parse_nat s"
proof -
  have "foldl (\<lambda>a c. 10 * a + digit_val c) 0 (replicate k CHR ''0'') = 0"
    by (induction k) (simp_all add: digit_val_zero)
  then show ?thesis by (simp add: parse_nat_def)
qed

lemma parse_nat_format: "parse_nat (format_06d n) = n"
  by (simp add: format_06d_def Let_def parse_nat_zeros parse_nat_str_nat)

lemma chunk_id_eq: "chunk_id m = chunk_id n \<longleftrightarrow> m = n"
proof
  assume "chunk_id m = chunk_id n"
  then have "format_06d m = format_06d n" by (simp add: chunk_id_def)
  then have "parse_nat (format_06d m) = parse_nat (format_06d n)" by simp
  then show "m = n" by (simp add: parse_nat_format)
qed simp

section \<open>Writing to the store\<close>

lemma foldl_add_record_fresh:
  assumes "distinct (map rec_id recs)"
    and "set (map rec_id recs) \<inter> set (map rec_id coll) = {}"
  shows "foldl add_record coll recs = coll @ recs"
  using assms
proof (induction recs arbitrary: coll)
  case Nil
  then show ?case by simp
next
  case (Cons r recs)
  from Cons.prems have fresh: "rec_id r \<notin> set (map rec_id coll)" by auto
  then have step: "add_record coll r = coll @ [r]" by (simp add: add_record_def)
  from Cons.prems have "distinct (map rec_id recs)"
    and "set (map rec_id recs) \<inter> set (map rec_id (coll @ [r])) = {}" by auto
  from Cons.IH [OF this] step show ?case by simp
qed

lemma make_records_slice:
  "make_records (py_slice ids (int i) (int j)) (py_slice cs (int i) (int j))
      (py_slice es (int i) (int j)) (py_slice ms (int i) (int j))
   = take (j - i) (drop i (make_records ids cs es ms))"
  by (simp add: make_records_def py_slice_nat take_zip drop_zip take_map drop_map)

lemma length_make_records:
  "length (make_records ids cs es ms) = min (length ids) (min (length cs) (min (length es) (length ms)))"
  by (simp add: make_records_def)

lemma add_loop_ok:
  assumes "length ids = length cs" "length cs \<le> length es" "length cs \<le> length ms"
  shows "add_loop coll ids cs es ms i = (foldl add_record coll (drop i (make_records ids cs es ms)), None)"
proof (induction "length cs - i" arbitrary: i coll rule: less_induct)
  case less
  show ?case
  proof (cases "length cs \<le> i")
    case True
    with assms have "drop i (make_records ids cs es ms) = []"
      by (simp add: length_make_records)
    with True show ?thesis by (simp add: add_loop.simps)
  next
    case False
    define e where "e = min (i + batch_limit) (length cs)"
    from False have ie: "i < e" "e \<le> length cs" by (simp_all add: e_def batch_limit_def)
    with assms have lens: "length (py_slice cs (int i) (int e)) = length (py_slice ids (int i) (int e))"
      "length (py_slice es (int i) (int e)) = length (py_slice ids (int i) (int e))"
      "length (py_slice ms (int i) (int e)) = length (py_slice ids (int i) (int e))"
      by (simp_all add: py_slice_nat)
    have add: "collection_add coll (py_slice ids (int i) (int e)) (py_slice cs (int i) (int e))
                 (py_slice es (int i) (int e)) (py_slice ms (int i) (int e))
               = Inr (foldl add_record coll (take (e - i) (drop i (make_records ids cs es ms))))"
      using lens by (simp add: collection_add_def make_records_slice)
    from False have m: "length cs - (i + batch_limit) < length cs - i"
      by (simp add: batch_limit_def)
    have rest: "drop (e - i) (drop i (make_records ids cs es ms))
                  = drop (i + batch_limit) (make_records ids cs es ms)"
    proof (cases "i + batch_limit \<le> length cs")
      case True
      then have "e - i = batch_limit" by (simp add: e_def)
      then show ?thesis by (simp add: add.commute)
    next
      case False
      with assms have "e = length cs" "length (make_records ids cs es ms) = length cs"
        by (simp_all add: e_def length_make_records)
      with False ie show ?thesis by simp
    qed
    have "foldl add_record coll (drop i (make_records ids cs es ms))
            = foldl add_record (foldl add_record coll (take (e - i) (drop i (make_records ids cs es ms))))
                (drop (e - i) (drop i (make_records ids cs es ms)))"
      by (metis append_take_drop_id foldl_append)
    with False add less [OF m] rest show ?thesis
      by (subst add_loop.simps) (simp add: e_def Let_def)
  qed
qed

lemma add_loop_short:
  assumes "length ids = length cs" "length es < length cs" "i < length cs"
  shows "snd (add_loop coll ids cs es ms i) \<noteq> None"
  using assms(3)
proof (induction "length cs - i" arbitrary: i coll rule: less_induct)
  case less
  define e where "e = min (i + batch_limit) (length cs)"
  from less.prems have ie: "i < e" "e \<le> length cs" by (simp_all add: e_def batch_limit_def)
  show ?case
  proof (cases "collection_add coll (py_slice ids (int i) (int e)) (py_slice cs (int i) (int e))
                  (py_slice es (int i) (int e)) (py_slice ms (int i) (int e))")
    case (Inl err)
    with less.prems show ?thesis
      by (subst add_loop.simps) (simp add: e_def Let_def)
  next
    case (Inr coll')
    then have "length (py_slice es (int i) (int e)) = length (py_slice ids (int i) (int e))"
      by (simp add: collection_add_def split: if_splits)
    with ie assms have "e - i \<le> length es - i"
      by (simp add: py_slice_nat min_def split: if_splits)
    with ie assms have "e < length cs" by linarith
    then have next_i: "i + batch_limit < length cs" by (simp add: e_def min_def split: if_splits)
    then have m: "length cs - (i + batch_limit) < length cs - i"
      by (simp add: batch_limit_def)
    from less.hyps [OF m next_i, of coll'] Inr less.prems show ?thesis
      by (subst add_loop.simps) (simp add: e_def Let_def)
  qed
qed

lemma make_records_ingest:
  assumes "length cs \<le> length es" "length cs \<le> length ms"
  shows "make_records (map (\<lambda>i. chunk_id (b + i)) [0 ..< length cs]) cs es ms
           = map (ingest_record b cs es ms) [0 ..< length cs]"
proof (rule nth_equalityI)
  show "length (make_records (map (\<lambda>i. chunk_id (b + i)) [0 ..< length cs]) cs es ms)
          = length (map (ingest_record b cs es ms) [0 ..< length cs])"
    using assms by (simp add: length_make_records)
next
  fix j
  assume "j < length (make_records (map (\<lambda>i. chunk_id (b + i)) [0 ..< length cs]) cs es ms)"
  with assms have j: "j < length cs" by (simp add: length_make_records)
  with assms show "make_records (map (\<lambda>i. chunk_id (b + i)) [0 ..< length cs]) cs es ms ! j
          = map (ingest_record b cs es ms) [0 ..< length cs] ! j"
    by (simp add: make_records_def ingest_record_def)
qed

lemma ingest_record_ids:
  "map rec_id (map (ingest_record b cs es ms) [0 ..< n]) = map chunk_id [b ..< b + n]"
proof -
  have "map rec_id (map (ingest_record b cs es ms) [0 ..< n]) = map (\<lambda>j. chunk_id (b + j)) [0 ..< n]"
    by (simp add: ingest_record_def)
  also have "\<dots> = map chunk_id (map (\<lambda>j. b + j) [0 ..< n])" by simp
  also have "map (\<lambda>j. b + j) [0 ..< n] = [b ..< b + n]"
    by (induction n) simp_all
  finally show ?thesis .
qed

lemma distinct_chunk_ids: "distinct (map chunk_id [a ..< b])"
  by (simp add: distinct_map inj_on_def chunk_id_eq)

text \<open>
  The store stage when the embeddings and metadata are at least as many as the chunks and
  no id about to be issued is in the collection: the collection becomes its former
  records (none for a fresh ingest) followed by one record per chunk, in order.
\<close>

lemma store_stage_ok:
  assumes "length cs \<le> length es" "length cs \<le> length ms"
    and base: "base = (if appending then stored cfg chroma else [])"
    and fresh: "set (map chunk_id [length base ..< length base + length cs]) \<inter> set (map rec_id base) = {}"
  shows "store_stage cfg chroma appending cs es ms
           = (chroma (collection_name cfg \<mapsto> base @ map (ingest_record (length base) cs es ms) [0 ..< length cs]),
              None)"
proof -
  let ?name = "collection_name cfg"
  define chroma1 where "chroma1 = (if \<not> appending
                     then (case delete_collection chroma ?name of Inl e \<Rightarrow> chroma | Inr c \<Rightarrow> c)
                     else chroma)"
  define created where "created = get_or_create_collection chroma1 ?name"
  have c1: "snd created = base"
    by (cases "chroma ?name")
       (simp_all add: created_def chroma1_def get_or_create_collection_def delete_collection_def
          base stored_def)
  have c2: "(fst created) (?name \<mapsto> x) = chroma (?name \<mapsto> x)" for x
    by (cases "chroma ?name")
       (simp_all add: created_def chroma1_def get_or_create_collection_def delete_collection_def)
  define recs where "recs = map (ingest_record (length base) cs es ms) [0 ..< length cs]"
  have ids: "map rec_id recs = map chunk_id [length base ..< length base + length cs]"
    by (simp only: recs_def ingest_record_ids)
  have count: "(if appending then collection_count base else 0) = length base"
    using base by (simp add: collection_count_def)
  have "add_loop base (map (\<lambda>i. chunk_id (length base + i)) [0 ..< length cs]) cs es ms 0
          = (foldl add_record base recs, None)"
    using add_loop_ok [of "map (\<lambda>i. chunk_id (length base + i)) [0 ..< length cs]" cs es ms base 0]
      assms(1,2) make_records_ingest [OF assms(1,2), of "length base"]
    by (simp add: recs_def)
  moreover have "foldl add_record base recs = base @ recs"
    using foldl_add_record_fresh [of recs base] ids fresh distinct_chunk_ids by simp
  ultimately show ?thesis
    unfolding store_stage_def Let_def
    by (simp only: chroma1_def [symmetric] created_def [symmetric] count c1 c2 recs_def fst_conv snd_conv)
qed

lemma store_stage_None:
  assumes "store_stage cfg chroma appending cs es ms = (chroma', None)"
  shows "length cs \<le> length es"
proof (rule ccontr)
  assume "\<not> length cs \<le> length es"
  then have short: "length es < length cs" by simp
  then have pos: "0 < length cs" by linarith
  have "snd (add_loop coll (map (\<lambda>i. chunk_id (k + i)) [0 ..< length cs]) cs es ms 0) \<noteq> None"
    for coll :: "'a collection" and k
    by (rule add_loop_short [OF _ short pos]) simp
  with assms show False
    by (simp add: store_stage_def Let_def)
qed

section \<open>Ingestion pipeline\<close>

lemma ingest_no_documents:
  assumes "load_stage fs paths sources_file = Inr []"
  shows "ingest cfg env_key fs remote fops chroma paths sources_file appending
           = Some ((chroma, []),
                   Inr \<lparr>stat_documents = 0, stat_chunks = 0, stat_tokens_est = 0,
                        stat_cost_est = fzero fops,
                        stat_errors = [''Nessun documento trovato'']\<rparr>)"
  using assms by (simp add: ingest_def)

lemma ingest_load_error:
  assumes "load_stage fs paths sources_file = Inl e"
  shows "ingest cfg env_key fs remote fops chroma paths sources_file appending
           = Some ((chroma, []), Inl e)"
  using assms by (simp add: ingest_def)

text \<open>What a successful \<open>ingest\<close> went through.\<close>

lemma ingest_success:
  assumes "ingest cfg env_key fs remote fops chroma paths sources_file appending
             = Some ((chroma', calls), Inr st)"
  shows "(load_stage fs paths sources_file = Inr [] \<and> chroma' = chroma \<and> calls = []
            \<and> stat_documents st = 0)
         \<or> (\<exists>docs cs ms es.
               load_stage fs paths sources_file = Inr docs \<and> docs \<noteq> []
               \<and> chunk_documents cfg docs = Some (cs, ms)
               \<and> embed_texts cfg env_key remote cs 50 = (calls, Inr es)
               \<and> store_stage cfg chroma appending cs es ms = (chroma', None)
               \<and> stat_documents st = int (length docs)
               \<and> stat_chunks st = int (length cs))"
proof (cases "load_stage fs paths sources_file")
  case (Inl e)
  with assms show ?thesis by (simp add: ingest_def)
next
  case (Inr docs)
  show ?thesis
  proof (cases "docs = []")
    case True
    with Inr assms show ?thesis by (auto simp: ingest_def)
  next
    case False
    with Inr assms obtain cs ms where cd: "chunk_documents cfg docs = Some (cs, ms)"
      by (cases "chunk_documents cfg docs") (auto simp: ingest_def)
    obtain calls' r where et: "embed_texts cfg env_key remote cs 50 = (calls', r)"
      by (cases "embed_texts cfg env_key remote cs 50") auto
    with Inr False cd assms obtain es where r: "r = Inr es"
      by (cases r) (auto simp: ingest_def)
    obtain c' eo where ss: "store_stage cfg chroma appending cs es ms = (c', eo)"
      by (cases "store_stage cfg chroma appending cs es ms") auto
    with Inr False cd et r assms have "eo = None"
      by (cases eo) (auto simp: ingest_def)
    with Inr False cd et r ss assms show ?thesis
      by (auto simp: ingest_def Let_def)
  qed
qed

lemma ingest_chunks_empty:
  "load_stage fs paths sources_file = Inr [] \<Longrightarrow> ingest_chunks cfg fs paths sources_file = Some []"
  by (simp add: ingest_chunks_def chunk_documents_def)

lemma stored_update: "stored cfg (chroma (collection_name cfg \<mapsto> coll)) = coll"
  by (simp add: stored_def)

lemma chunk_ids_disjoint: "set (map chunk_id [a ..< a + n]) \<inter> set (map chunk_id [0 ..< a]) = {}"
  by (auto simp: chunk_id_eq)

text \<open>
  A successful ingest into a collection whose ids are \<open>chunk_id 0\<close>, ..., in order (for
  a fresh ingest, any collection): afterwards the collection is the base (empty for a
  fresh ingest) followed by the new records, which carry the next ids.
\<close>

lemma ingest_store:
  assumes run: "ingest cfg env_key fs remote fops chroma paths sources_file appending
             = Some ((chroma', calls), Inr st)"
    and loaded: "0 < stat_documents st"
    and base: "base = (if appending then stored cfg chroma else [])"
    and ids: "map rec_id base = map chunk_id [0 ..< length base]"
  shows "\<exists>cs new. ingest_chunks cfg fs paths sources_file = Some cs
           \<and> stored cfg chroma' = base @ new
           \<and> length new = length cs
           \<and> map rec_id new = map chunk_id [length base ..< length base + length cs]"
proof -
  from ingest_success [OF run] loaded obtain docs cs ms es where
    ld: "load_stage fs paths sources_file = Inr docs"
    and cd: "chunk_documents cfg docs = Some (cs, ms)"
    and ss: "store_stage cfg chroma appending cs es ms = (chroma', None)"
    by auto
  from store_stage_None [OF ss] have le: "length cs \<le> length es" .
  from chunk_documents_lengths [OF cd] have lm: "length cs \<le> length ms" by simp
  have fresh: "set (map chunk_id [length base ..< length base + length cs]) \<inter> set (map rec_id base) = {}"
    using chunk_ids_disjoint [of "length base" "length cs"] ids by simp
  define new where "new = map (ingest_record (length base) cs es ms) [0 ..< length cs]"
  from store_stage_ok [OF le lm base fresh] ss
  have "chroma' = chroma (collection_name cfg \<mapsto> base @ new)"
    by (simp add: new_def)
  then have "stored cfg chroma' = base @ new" by (simp add: stored_update)
  moreover from ld cd have "ingest_chunks cfg fs paths sources_file = Some cs"
    by (simp add: ingest_chunks_def)
  moreover have "length new = length cs" by (simp add: new_def)
  moreover have "map rec_id new = map chunk_id [length base ..< length base + length cs]"
    by (simp only: new_def ingest_record_ids)
  ultimately show ?thesis by blast
qed

lemma ingest_noop:
  assumes run: "ingest cfg env_key fs remote fops chroma paths sources_file appending
             = Some ((chroma', calls), Inr st)"
    and none: "\<not> 0 < stat_documents st"
  shows "ingest_chunks cfg fs paths sources_file = Some [] \<and> chroma' = chroma"
proof -
  from ingest_success [OF run] none
  have "load_stage fs paths sources_file = Inr [] \<and> chroma' = chroma"
    by auto
  then show ?thesis by (simp add: ingest_chunks_empty)
qed

lemma sample_ingest_missing:
  "ingest sample_config [] sample_fs sample_remote sample_float_ops stale_store
     (Some [''missing.txt'']) None False
   = Some ((stale_store, []),
           Inr \<lparr>stat_documents = 0, stat_chunks = 0, stat_tokens_est = 0, stat_cost_est = 0,
                stat_errors = [''Nessun documento trovato'']\<rparr>)"
proof -
  have "load_stage sample_fs (Some [''missing.txt'']) None = Inr []"
    by code_simp
  from ingest_no_documents [OF this, of sample_config "[]" sample_remote sample_float_ops
      stale_store False]
  show ?thesis by (simp add: sample_float_ops_def)
qed

text \<open>
  C3 (as stated, refuted). The collection holds one record. Ingesting a path that yields no
  document with \<open>append=False\<close> returns the no-op result and leaves the collection as it
  is; ingesting \<open>b.txt\<close> (one chunk) with \<open>append=True\<close> then gives a count of 2, while
  the two document sets have \<open>0 + 1\<close> chunks.
\<close>

theorem ingest_append_stale:
  "ingest sample_config [] sample_fs sample_remote sample_float_ops stale_store
     (Some [''missing.txt'']) None False
   = Some ((stale_store, []),
           Inr \<lparr>stat_documents = 0, stat_chunks = 0, stat_tokens_est = 0, stat_cost_est = 0,
                stat_errors = [''Nessun documento trovato'']\<rparr>)
   \<and> succeeded (ingest sample_config [] sample_fs sample_remote sample_float_ops stale_store
                  (Some [''b.txt'']) None True)
   \<and> collection_count (store_after sample_config
        (ingest sample_config [] sample_fs sample_remote sample_float_ops stale_store
           (Some [''b.txt'']) None True)) = 2
   \<and> ingest_chunks sample_config sample_fs (Some [''missing.txt'']) None = Some []
   \<and> ingest_chunks sample_config sample_fs (Some [''b.txt'']) None
       = Some [replicate 60 CHR ''d'']
   \<and> (2::nat) \<noteq> length ([] :: string list) + length [replicate 60 CHR ''d'']"
proof -
  have "succeeded (ingest sample_config [] sample_fs sample_remote sample_float_ops stale_store
                  (Some [''b.txt'']) None True)"
    by code_simp
  moreover have "collection_count (store_after sample_config
        (ingest sample_config [] sample_fs sample_remote sample_float_ops stale_store
           (Some [''b.txt'']) None True)) = 2"
    by code_simp
  moreover have "ingest_chunks sample_config sample_fs (Some [''missing.txt'']) None = Some []"
    by code_simp
  moreover have "ingest_chunks sample_config sample_fs (Some [''b.txt'']) None
       = Some [replicate 60 CHR ''d'']"
    by code_simp
  ultimately show ?thesis using sample_ingest_missing by simp
qed

text \<open>
  C3 (amended). Ingest document set A with \<open>append=False\<close>, then document set B with
  \<open>append=True\<close> into the store the first call left, both returning statistics. If A
  loads at least one document, or the collection held no record before, then the ids of
  A's records are \<open>chunk_id 0, ..., chunk_id (len(chunks(A)) - 1)\<close>, the second call
  adds to them the records of B under the next \<open>len(chunks(B))\<close> ids, no id of B is an
  id of A, and the count is \<open>len(chunks(A)) + len(chunks(B))\<close>. (An ingest that loads no
  document returns before the store stage: it neither replaces the collection nor adds
  to it.)
\<close>

theorem ingest_append_ids:
  assumes A: "ingest cfg env_key fsA remote fops chroma0 pathsA srcA False
                = Some ((chroma1, calls1), Inr statsA)"
    and B: "ingest cfg env_key fsB remote fops chroma1 pathsB srcB True
                = Some ((chroma2, calls2), Inr statsB)"
    and start: "0 < stat_documents statsA \<or> stored cfg chroma0 = []"
  shows "\<exists>chunksA chunksB newB.
           ingest_chunks cfg fsA pathsA srcA = Some chunksA
         \<and> ingest_chunks cfg fsB pathsB srcB = Some chunksB
         \<and> map rec_id (stored cfg chroma1) = map chunk_id [0 ..< length chunksA]
         \<and> stored cfg chroma2 = stored cfg chroma1 @ newB
         \<and> map rec_id newB = map chunk_id [length chunksA ..< length chunksA + length chunksB]
         \<and> set (map rec_id newB) \<inter> set (map rec_id (stored cfg chroma1)) = {}
         \<and> collection_count (stored cfg chroma2) = length chunksA + length chunksB"
proof -
  obtain chunksA where a1: "ingest_chunks cfg fsA pathsA srcA = Some chunksA"
    and a2: "map rec_id (stored cfg chroma1) = map chunk_id [0 ..< length chunksA]"
  proof (cases "0 < stat_documents statsA")
    case True
    from ingest_store [OF A True, of "[]"] obtain cs new where
      "ingest_chunks cfg fsA pathsA srcA = Some cs" "stored cfg chroma1 = new"
      "map rec_id new = map chunk_id [0 ..< length cs]"
      by auto
    with that show ?thesis by simp
  next
    case False
    from ingest_noop [OF A False] start False
    have "ingest_chunks cfg fsA pathsA srcA = Some []" "stored cfg chroma1 = []" by simp_all
    with that [of "[]"] show ?thesis by simp
  qed
  from a2 have lenA: "length (stored cfg chroma1) = length chunksA"
    using length_map [of rec_id "stored cfg chroma1"] by simp
  obtain chunksB newB where b1: "ingest_chunks cfg fsB pathsB srcB = Some chunksB"
    and b2: "stored cfg chroma2 = stored cfg chroma1 @ newB"
    and b3: "map rec_id newB = map chunk_id [length chunksA ..< length chunksA + length chunksB]"
  proof (cases "0 < stat_documents statsB")
    case True
    have ids: "map rec_id (stored cfg chroma1) = map chunk_id [0 ..< length (stored cfg chroma1)]"
      using a2 lenA by simp
    from ingest_store [OF B True _ ids] lenA obtain cs new where
      "ingest_chunks cfg fsB pathsB srcB = Some cs" "stored cfg chroma2 = stored cfg chroma1 @ new"
      "map rec_id new = map chunk_id [length chunksA ..< length chunksA + length cs]"
      by auto
    with that show ?thesis by blast
  next
    case False
    from ingest_noop [OF B False]
    have "ingest_chunks cfg fsB pathsB srcB = Some []" "stored cfg chroma2 = stored cfg chroma1 @ []"
      by simp_all
    with that [of "[]" "[]"] show ?thesis by simp
  qed
  from b3 have lenB: "length newB = length chunksB"
    using length_map [of rec_id newB] by simp
  have "set (map rec_id newB) \<inter> set (map rec_id (stored cfg chroma1)) = {}"
    unfolding a2 b3 by (rule chunk_ids_disjoint)
  moreover from b2 lenA lenB
  have "collection_count (stored cfg chroma2) = length chunksA + length chunksB"
    by (simp add: collection_count_def)
  ultimately show ?thesis using a1 a2 b1 b2 b3 by blast
qed

lemma ingest_run:
  assumes "load_stage fs paths sources_file = Inr docs" "docs \<noteq> []"
    and "chunk_documents cfg docs = Some (cs, ms)"
    and "embed_texts cfg env_key remote cs 50 = (calls, Inr es)"
    and "store_stage cfg chroma appending cs es ms = (chroma', None)"
  shows "ingest cfg env_key fs remote fops chroma paths sources_file appending
           = Some ((chroma', calls),
                   Inr \<lparr>stat_documents = int (length docs), stat_chunks = int (length cs),
                        stat_tokens_est = int (sum_list (map length cs)) div 4,
                        stat_cost_est = cost_of fops (int (sum_list (map length cs)) div 4),
                        stat_errors = []\<rparr>)"
  using assms by (simp add: ingest_def Let_def)

lemma sample_load_a: "load_stage sample_fs (Some [''a.txt'']) None = Inr [doc_a]"
  by code_simp

lemma sample_load_b: "load_stage sample_fs (Some [''b.txt'']) None = Inr [doc_b]"
  by code_simp

lemma sample_chunks_a:
  "chunk_documents sample_config [doc_a] = Some ([replicate 60 CHR ''c''], [doc_metadata doc_a 0 1])"
  by code_simp

lemma sample_chunks_b:
  "chunk_documents sample_config [doc_b] = Some ([replicate 60 CHR ''d''], [doc_metadata doc_b 0 1])"
  by code_simp

lemma sample_chunks_ab:
  "chunk_documents sample_config [doc_a, doc_b]
     = Some ([replicate 60 CHR ''c'', replicate 60 CHR ''d''],
             [doc_metadata doc_a 0 1, doc_metadata doc_b 0 1])"
  by code_simp

lemma sample_embed_a:
  "embed_texts sample_config [] sample_remote [replicate 60 CHR ''c''] 50
     = ([EmbedCall ''mistral-embed'' [replicate 60 CHR ''c'']], Inr [60])"
  by code_simp

lemma sample_embed_b:
  "embed_texts sample_config [] sample_remote [replicate 60 CHR ''d''] 50
     = ([EmbedCall ''mistral-embed'' [replicate 60 CHR ''d'']], Inr [60])"
  by code_simp

lemma sample_name: "collection_name sample_config = ''gdprag_docs''"
  by (simp add: sample_config_def)

lemma sample_store_fresh:
  "store_stage sample_config stale_store False [replicate 60 CHR ''c''] [60] [doc_metadata doc_a 0 1]
     = (store_a, None)"
  using store_stage_ok [of "[replicate 60 CHR ''c'']" "[60::nat]" "[doc_metadata doc_a 0 1]" "[]"
      False sample_config stale_store]
  by (simp add: store_a_def rec_a_def ingest_record_def sample_name)

lemma stored_store_a: "stored sample_config store_a = [rec_a]"
  by (simp add: stored_def store_a_def sample_name)

lemma stored_store_ab: "stored sample_config store_ab = [rec_a, rec_b]"
  by (simp add: stored_def store_ab_def sample_name)

lemma sample_store_append:
  "store_stage sample_config store_a True [replicate 60 CHR ''d''] [60] [doc_metadata doc_b 0 1]
     = (store_ab, None)"
  using store_stage_ok [of "[replicate 60 CHR ''d'']" "[60::nat]" "[doc_metadata doc_b 0 1]" "[rec_a]"
      True sample_config store_a]
  by (simp add: stored_store_a store_ab_def rec_a_def rec_b_def ingest_record_def sample_name
        chunk_id_eq)

lemma sample_ingest_a:
  "ingest sample_config [] sample_fs sample_remote sample_float_ops stale_store
     (Some [''a.txt'']) None False
   = Some ((store_a, [EmbedCall ''mistral-embed'' [replicate 60 CHR ''c'']]),
           Inr \<lparr>stat_documents = 1, stat_chunks = 1, stat_tokens_est = 15, stat_cost_est = 15,
                stat_errors = []\<rparr>)"
  using ingest_run [OF sample_load_a _ sample_chunks_a sample_embed_a sample_store_fresh,
      of sample_float_ops]
  by (simp add: sample_float_ops_def)

lemma sample_ingest_b:
  "ingest sample_config [] sample_fs sample_remote sample_float_ops store_a
     (Some [''b.txt'']) None True
   = Some ((store_ab, [EmbedCall ''mistral-embed'' [replicate 60 CHR ''d'']]),
           Inr \<lparr>stat_documents = 1, stat_chunks = 1, stat_tokens_est = 15, stat_cost_est = 15,
                stat_errors = []\<rparr>)"
  using ingest_run [OF sample_load_b _ sample_chunks_b sample_embed_b sample_store_append,
      of sample_float_ops]
  by (simp add: sample_float_ops_def)

theorem ingest_append_ids_witness:
  "ingest sample_config [] sample_fs sample_remote sample_float_ops stale_store
     (Some [''a.txt'']) None False
   = Some ((store_a, [EmbedCall ''mistral-embed'' [replicate 60 CHR ''c'']]),
           Inr \<lparr>stat_documents = 1, stat_chunks = 1, stat_tokens_est = 15, stat_cost_est = 15,
                stat_errors = []\<rparr>)
   \<and> ingest sample_config [] sample_fs sample_remote sample_float_ops store_a
       (Some [''b.txt'']) None True
     = Some ((store_ab, [EmbedCall ''mistral-embed'' [replicate 60 CHR ''d'']]),
             Inr \<lparr>stat_documents = 1, stat_chunks = 1, stat_tokens_est = 15, stat_cost_est = 15,
                  stat_errors = []\<rparr>)
   \<and> map rec_id (stored sample_config store_a) = [chunk_id 0]
   \<and> map rec_id (stored sample_config store_ab) = [chunk_id 0, chunk_id 1]
   \<and> collection_count (stored sample_config store_ab) = 1 + 1"
proof -
  have start: "0 < stat_documents \<lparr>stat_documents = 1, stat_chunks = 1, stat_tokens_est = 15,
                  stat_cost_est = (15::int), stat_errors = []\<rparr>
               \<or> stored sample_config stale_store = []"
    by simp
  from ingest_append_ids [OF sample_ingest_a sample_ingest_b start]
  obtain chunksA chunksB newB where
    a: "ingest_chunks sample_config sample_fs (Some [''a.txt'']) None = Some chunksA"
    and b: "ingest_chunks sample_config sample_fs (Some [''b.txt'']) None = Some chunksB"
    and ia: "map rec_id (stored sample_config store_a) = map chunk_id [0 ..< length chunksA]"
    and n: "collection_count (stored sample_config store_ab) = length chunksA + length chunksB"
    by blast
  from a sample_load_a sample_chunks_a have "chunksA = [replicate 60 CHR ''c'']"
    by (simp add: ingest_chunks_def)
  moreover from b sample_load_b sample_chunks_b have "chunksB = [replicate 60 CHR ''d'']"
    by (simp add: ingest_chunks_def)
  ultimately have "map rec_id (stored sample_config store_a) = [chunk_id 0]"
    and "collection_count (stored sample_config store_ab) = 1 + 1"
    using ia n by simp_all
  moreover have "map rec_id (stored sample_config store_ab) = [chunk_id 0, chunk_id 1]"
    by (simp add: stored_store_ab rec_a_def rec_b_def)
  ultimately show ?thesis using sample_ingest_a sample_ingest_b by simp
qed

text \<open>
  C6 (as stated, refuted). The manifest \<open>comments.txt\<close> exists and holds a comment line
  and a blank line, so no usable path; \<open>ingest\<close> ends with the \<open>ValueError\<close> that
  \<open>load_sources_file\<close> raises, not with a result.
\<close>

theorem ingest_empty_manifest_raises:
  "fs_exists sample_fs ''comments.txt''
   \<and> manifest_paths (fs_read_text sample_fs ''comments.txt'') = []
   \<and> ingest sample_config [] sample_fs sample_remote sample_float_ops empty_store
       None (Some ''comments.txt'') False
     = Some ((empty_store, []), Inl (ValueError ''Nessun percorso trovato in comments.txt''))"
proof -
  have e: "fs_exists sample_fs ''comments.txt''"
    by (simp add: sample_fs_def)
  have m: "manifest_paths (fs_read_text sample_fs ''comments.txt'') = []"
    by code_simp
  from e m have "load_stage sample_fs None (Some ''comments.txt'')
          = Inl (ValueError ''Nessun percorso trovato in comments.txt'')"
    by (simp add: load_stage_def load_sources_file_def Let_def)
  from ingest_load_error [OF this] e m show ?thesis by simp
qed

text \<open>
  C6 (amended). When the supplied paths, or the paths of a manifest that lists at least
  one, yield zero loaded documents, \<open>ingest\<close> returns the statistics record with zero
  counts and the message \<open>Nessun documento trovato\<close> in its errors field; it raises
  nothing, calls no remote service and leaves the store as it is. When the manifest
  exists but yields zero usable paths, \<open>ingest\<close> raises the \<open>ValueError\<close> of
  \<open>load_sources_file\<close>; with neither paths nor manifest it raises a \<open>ValueError\<close> too.
\<close>

theorem ingest_empty_result:
  "(ps \<noteq> [] \<and> fst (load_sources fs ps) = [] \<longrightarrow>
      ingest cfg env_key fs remote fops chroma (Some ps) None appending
        = Some ((chroma, []),
                Inr \<lparr>stat_documents = 0, stat_chunks = 0, stat_tokens_est = 0,
                     stat_cost_est = fzero fops,
                     stat_errors = [''Nessun documento trovato'']\<rparr>))
   \<and> (f \<noteq> [] \<and> fs_exists fs f \<and> manifest_paths (fs_read_text fs f) \<noteq> []
        \<and> fst (load_sources fs (manifest_paths (fs_read_text fs f))) = [] \<longrightarrow>
      ingest cfg env_key fs remote fops chroma paths (Some f) appending
        = Some ((chroma, []),
                Inr \<lparr>stat_documents = 0, stat_chunks = 0, stat_tokens_est = 0,
                     stat_cost_est = fzero fops,
                     stat_errors = [''Nessun documento trovato'']\<rparr>))
   \<and> (f \<noteq> [] \<and> fs_exists fs f \<and> manifest_paths (fs_read_text fs f) = [] \<longrightarrow>
      ingest cfg env_key fs remote fops chroma paths (Some f) appending
        = Some ((chroma, []), Inl (ValueError (''Nessun percorso trovato in '' @ f))))
   \<and> ingest cfg env_key fs remote fops chroma None None appending
        = Some ((chroma, []), Inl (ValueError ''Specifica paths o sources_file''))"
proof (intro conjI impI)
  assume "ps \<noteq> [] \<and> fst (load_sources fs ps) = []"
  then have "load_stage fs (Some ps) None = Inr []"
    by (simp add: load_stage_def)
  then show "ingest cfg env_key fs remote fops chroma (Some ps) None appending
        = Some ((chroma, []),
                Inr \<lparr>stat_documents = 0, stat_chunks = 0, stat_tokens_est = 0,
                     stat_cost_est = fzero fops,
                     stat_errors = [''Nessun documento trovato'']\<rparr>)"
    by (rule ingest_no_documents)
next
  assume "f \<noteq> [] \<and> fs_exists fs f \<and> manifest_paths (fs_read_text fs f) \<noteq> []
        \<and> fst (load_sources fs (manifest_paths (fs_read_text fs f))) = []"
  then have "load_stage fs paths (Some f) = Inr []"
    by (simp add: load_stage_def load_sources_file_def Let_def)
  then show "ingest cfg env_key fs remote fops chroma paths (Some f) appending
        = Some ((chroma, []),
                Inr \<lparr>stat_documents = 0, stat_chunks = 0, stat_tokens_est = 0,
                     stat_cost_est = fzero fops,
                     stat_errors = [''Nessun documento trovato'']\<rparr>)"
    by (rule ingest_no_documents)
next
  assume "f \<noteq> [] \<and> fs_exists fs f \<and> manifest_paths (fs_read_text fs f) = []"
  then have "load_stage fs paths (Some f) = Inl (ValueError (''Nessun percorso trovato in '' @ f))"
    by (simp add: load_stage_def load_sources_file_def Let_def)
  then show "ingest cfg env_key fs remote fops chroma paths (Some f) appending
        = Some ((chroma, []), Inl (ValueError (''Nessun percorso trovato in '' @ f)))"
    by (rule ingest_load_error)
next
  have "load_stage fs None None = Inl (ValueError ''Specifica paths o sources_file'')"
    by (simp add: load_stage_def)
  then show "ingest cfg env_key fs remote fops chroma None None appending
        = Some ((chroma, []), Inl (ValueError ''Specifica paths o sources_file''))"
    by (rule ingest_load_error)
qed

theorem ingest_empty_result_witness:
  "[''blank.txt''] \<noteq> [] \<and> fst (load_sources sample_fs [''blank.txt'']) = []
   \<and> ingest sample_config [] sample_fs sample_remote sample_float_ops stale_store
       (Some [''blank.txt'']) None False
     = Some ((stale_store, []),
             Inr \<lparr>stat_documents = 0, stat_chunks = 0, stat_tokens_est = 0, stat_cost_est = 0,
                  stat_errors = [''Nessun documento trovato'']\<rparr>)
   \<and> ''comments.txt'' \<noteq> [] \<and> fs_exists sample_fs ''comments.txt''
   \<and> manifest_paths (fs_read_text sample_fs ''comments.txt'') = []
   \<and> ingest sample_config [] sample_fs sample_remote sample_float_ops stale_store
       None (Some ''comments.txt'') True
     = Some ((stale_store, []), Inl (ValueError ''Nessun percorso trovato in comments.txt''))"
proof -
  have l: "fst (load_sources sample_fs [''blank.txt'']) = []"
    by code_simp
  have e: "fs_exists sample_fs ''comments.txt''"
    by (simp add: sample_fs_def)
  have m: "manifest_paths (fs_read_text sample_fs ''comments.txt'') = []"
    by code_simp
  from ingest_empty_result [where ps = "[''blank.txt'']" and fs = sample_fs
      and f = "''comments.txt''" and cfg = sample_config and env_key = "[]"
      and remote = sample_remote and fops = sample_float_ops and chroma = stale_store
      and appending = False and paths = None]
    l
  have 1: "ingest sample_config [] sample_fs sample_remote sample_float_ops stale_store
       (Some [''blank.txt'']) None False
     = Some ((stale_store, []),
             Inr \<lparr>stat_documents = 0, stat_chunks = 0, stat_tokens_est = 0, stat_cost_est = 0,
                  stat_errors = [''Nessun documento trovato'']\<rparr>)"
    by (simp add: sample_float_ops_def)
  from ingest_empty_result [where ps = "[''blank.txt'']" and fs = sample_fs
      and f = "''comments.txt''" and cfg = sample_config and env_key = "[]"
      and remote = sample_remote and fops = sample_float_ops and chroma = stale_store
      and appending = True and paths = None]
    e m
  have 2: "ingest sample_config [] sample_fs sample_remote sample_float_ops stale_store
       None (Some ''comments.txt'') True
     = Some ((stale_store, []), Inl (ValueError ''Nessun percorso trovato in comments.txt''))"
    by simp
  from l e m 1 2 show ?thesis by simp
qed

section \<open>Document-then-chunk order\<close>

lemma doc_metadatas_nth:
  assumes "i < n"
  shows "dict_item (doc_metadatas d n ! i) ''chunk_index'' = Inr (VInt (int i))"
    and "dict_item (doc_metadatas d n ! i) ''total_chunks'' = Inr (VInt (int n))"
    and "dict_item (doc_metadatas d n ! i) ''filename'' = Inr (VStr (filename d))"
  using assms by (simp_all add: doc_metadatas_def doc_metadata_def dict_item_def)

text \<open>Element \<open>i\<close> of the \<open>k\<close>-th list sits in the concatenation after the lists before it.\<close>

lemma concat_nth_offset:
  "k < length xss \<Longrightarrow> i < length (xss ! k) \<Longrightarrow>
   concat xss ! (length (concat (take k xss)) + i) = xss ! k ! i"
proof (induction xss arbitrary: k)
  case Nil
  then show ?case by simp
next
  case (Cons xs xss)
  show ?case
  proof (cases k)
    case 0
    with Cons.prems show ?thesis by (simp add: nth_append)
  next
    case (Suc m)
    with Cons.prems have "m < length xss" "i < length (xss ! m)" by simp_all
    from Cons.IH [OF this] Suc show ?thesis
      by (simp add: nth_append add.assoc)
  qed
qed

lemma those_all_Some:
  "(\<And>x. x \<in> set xs \<Longrightarrow> \<exists>y. f x = Some y) \<Longrightarrow> \<exists>ys. those (map f xs) = Some ys"
proof (induction xs)
  case Nil
  then show ?case by simp
next
  case (Cons x xs)
  from Cons.prems obtain y where y: "f x = Some y" by auto
  from Cons.IH Cons.prems obtain ys where "those (map f xs) = Some ys" by auto
  with y show ?case by simp
qed

text \<open>Where every \<open>chunk_text\<close> returns, \<open>chunk_documents\<close> returns.\<close>

lemma chunk_documents_returns:
  assumes "0 < chunk_size cfg" "0 \<le> chunk_overlap cfg" "chunk_overlap cfg \<le> chunk_size cfg div 2"
  shows "\<exists>chunks metadata. chunk_documents cfg docs = Some (chunks, metadata)"
proof -
  have "\<exists>y. doc_chunks cfg d = Some y" for d
    unfolding doc_chunks_def by (rule chunk_text_returns [OF assms])
  then have "\<exists>ys. those (map (doc_chunks cfg) docs) = Some ys"
    by (intro those_all_Some) simp
  then show ?thesis
    by (auto simp: chunk_documents_eq)
qed

lemma chunk_documents_layout:
  assumes "chunk_documents cfg docs = Some (chunks, metadata)"
  shows "\<exists>per_doc. length per_doc = length docs
          \<and> (\<forall>k < length docs. doc_chunks cfg (docs ! k) = Some (per_doc ! k))
          \<and> chunks = concat per_doc
          \<and> metadata = concat (map (\<lambda>(d, c). doc_metadatas d (length c)) (zip docs per_doc))
          \<and> (\<forall>k < length docs. \<forall>i < length (per_doc ! k).
                chunks ! (length (concat (take k per_doc)) + i) = per_doc ! k ! i
              \<and> dict_item (metadata ! (length (concat (take k per_doc)) + i)) ''chunk_index''
                  = Inr (VInt (int i))
              \<and> dict_item (metadata ! (length (concat (take k per_doc)) + i)) ''total_chunks''
                  = Inr (VInt (int (length (per_doc ! k))))
              \<and> dict_item (metadata ! (length (concat (take k per_doc)) + i)) ''filename''
                  = Inr (VStr (filename (docs ! k))))"
proof -
  from assms obtain per_doc where t: "those (map (doc_chunks cfg) docs) = Some per_doc"
    and c: "chunks = concat per_doc"
    and m: "metadata = concat (map (\<lambda>(d, c). doc_metadatas d (length c)) (zip docs per_doc))"
    by (auto simp: chunk_documents_eq)
  from those_length [OF t] have l: "length per_doc = length docs" by simp
  have n: "\<forall>k < length docs. doc_chunks cfg (docs ! k) = Some (per_doc ! k)"
    using those_nth [OF t] by simp
  define mss where "mss = map (\<lambda>(d, c). doc_metadatas d (length c)) (zip docs per_doc)"
  have pos: "chunks ! (length (concat (take k per_doc)) + i) = per_doc ! k ! i
              \<and> dict_item (metadata ! (length (concat (take k per_doc)) + i)) ''chunk_index''
                  = Inr (VInt (int i))
              \<and> dict_item (metadata ! (length (concat (take k per_doc)) + i)) ''total_chunks''
                  = Inr (VInt (int (length (per_doc ! k))))
              \<and> dict_item (metadata ! (length (concat (take k per_doc)) + i)) ''filename''
                  = Inr (VStr (filename (docs ! k)))"
    if k: "k < length docs" and i: "i < length (per_doc ! k)" for k i
  proof -
    from k l have kp: "k < length per_doc" by simp
    from k l have km: "k < length mss" by (simp add: mss_def)
    from k l have mk: "mss ! k = doc_metadatas (docs ! k) (length (per_doc ! k))"
      by (simp add: mss_def)
    have "take k mss = map (\<lambda>(d, c). doc_metadatas d (length c)) (zip (take k docs) (take k per_doc))"
      by (simp add: mss_def take_map take_zip)
    moreover from l have "length (take k docs) = length (take k per_doc)" by simp
    ultimately have off: "length (concat (take k mss)) = length (concat (take k per_doc))"
      using length_concat_metadatas [of "take k docs" "take k per_doc"] by simp
    from i mk have im: "i < length (mss ! k)" by (simp add: length_doc_metadatas)
    from concat_nth_offset [OF km im] off mk m
    have "metadata ! (length (concat (take k per_doc)) + i)
            = doc_metadatas (docs ! k) (length (per_doc ! k)) ! i"
      by (simp add: mss_def)
    with doc_metadatas_nth [OF i, of "docs ! k"] concat_nth_offset [OF kp i] c
    show ?thesis by simp
  qed
  from l n c m pos show ?thesis by blast
qed

lemma stuck_doc_chunks: "doc_chunks stuck_config stuck_doc = None"
proof -
  have "doc_text stuck_doc = stuck_text"
    by code_simp
  then have "doc_chunks stuck_config stuck_doc = chunk_text 10 8 stuck_text"
    by (simp add: doc_chunks_def stuck_config_def)
  with stuck_text_no_result show ?thesis by simp
qed

text \<open>
  C8 (as stated, refuted). With windows of 10 characters overlapping by 8, a configuration
  with \<open>0 \<le> overlap < size\<close>, \<open>chunk_documents\<close> emits no lists for the document list
  \<open>[stuck_doc]\<close>: the chunker does not return on the text of that document.
\<close>

theorem chunk_documents_stuck:
  "0 \<le> chunk_overlap stuck_config \<and> chunk_overlap stuck_config < chunk_size stuck_config
   \<and> chunk_documents stuck_config [stuck_doc] = None"
proof -
  have "chunk_documents stuck_config [stuck_doc] = None"
    by (simp add: chunk_documents_eq stuck_doc_chunks)
  then show ?thesis
    by (simp add: stuck_config_def)
qed

text \<open>
  C8 (amended). For a configuration with \<open>0 < chunk_size\<close> and
  \<open>0 \<le> chunk_overlap \<le> chunk_size div 2\<close>, \<open>chunk_documents\<close> returns on every
  document list. Whenever it returns (for any configuration), its two lists have equal
  length; the chunk list is the concatenation, in document order, of the chunk lists that
  \<open>chunk_text\<close> gives for each document, and the metadata list is the concatenation of
  the corresponding metadata lists: chunk \<open>i\<close> of document \<open>k\<close> and its metadata record
  sit at the same position of the two lists, after the chunks of the documents before
  \<open>k\<close>, and the record has \<open>chunk_index = i\<close>, \<open>total_chunks\<close> the number of chunks
  of document \<open>k\<close>, and the file name of document \<open>k\<close>. The store stage of the same
  ingest call then writes, for each position \<open>j\<close>, one record that pairs the \<open>j\<close>-th
  generated id with the \<open>j\<close>-th chunk, the \<open>j\<close>-th embedding and the \<open>j\<close>-th metadata
  record: after a fresh ingest these records are the collection; after an append they
  follow the records that were there, provided none of those has one of the new ids.
\<close>

theorem chunk_documents_order:
  "(0 < chunk_size cfg \<and> 0 \<le> chunk_overlap cfg \<and> chunk_overlap cfg \<le> chunk_size cfg div 2 \<longrightarrow>
      (\<exists>chunks metadata. chunk_documents cfg docs = Some (chunks, metadata)))
   \<and> (\<forall>chunks metadata. chunk_documents cfg docs = Some (chunks, metadata) \<longrightarrow>
      length chunks = length metadata
    \<and> (\<exists>per_doc. length per_doc = length docs
          \<and> (\<forall>k < length docs. doc_chunks cfg (docs ! k) = Some (per_doc ! k))
          \<and> chunks = concat per_doc
          \<and> metadata = concat (map (\<lambda>(d, c). doc_metadatas d (length c)) (zip docs per_doc))
          \<and> (\<forall>k < length docs. \<forall>i < length (per_doc ! k).
                chunks ! (length (concat (take k per_doc)) + i) = per_doc ! k ! i
              \<and> dict_item (metadata ! (length (concat (take k per_doc)) + i)) ''chunk_index''
                  = Inr (VInt (int i))
              \<and> dict_item (metadata ! (length (concat (take k per_doc)) + i)) ''total_chunks''
                  = Inr (VInt (int (length (per_doc ! k))))
              \<and> dict_item (metadata ! (length (concat (take k per_doc)) + i)) ''filename''
                  = Inr (VStr (filename (docs ! k)))))
    \<and> (\<forall>embeddings chroma. length chunks \<le> length embeddings \<longrightarrow>
          store_stage cfg chroma False chunks embeddings metadata
            = (chroma (collection_name cfg \<mapsto>
                 map (ingest_record 0 chunks embeddings metadata) [0 ..< length chunks]), None))
    \<and> (\<forall>embeddings chroma. length chunks \<le> length embeddings
          \<and> set (map chunk_id [length (stored cfg chroma) ..<
                                 length (stored cfg chroma) + length chunks])
              \<inter> set (map rec_id (stored cfg chroma)) = {} \<longrightarrow>
          store_stage cfg chroma True chunks embeddings metadata
            = (chroma (collection_name cfg \<mapsto>
                 stored cfg chroma
                 @ map (ingest_record (length (stored cfg chroma)) chunks embeddings metadata)
                     [0 ..< length chunks]), None)))"
proof (intro conjI allI impI, goal_cases)
  case 1
  then show ?case
    using chunk_documents_returns [of cfg docs] by blast
next
  case (2 chunks metadata)
  from chunk_documents_lengths [OF 2] show ?case by simp
next
  case (3 chunks metadata)
  then show ?case by (rule chunk_documents_layout)
next
  case (4 chunks metadata embeddings chroma)
  from chunk_documents_lengths [OF 4(1)] have lm: "length chunks \<le> length metadata" by simp
  from store_stage_ok [OF 4(2) lm, of "[]" False cfg chroma]
  show ?case by simp
next
  case (5 chunks metadata embeddings chroma)
  from chunk_documents_lengths [OF 5(1)] have lm: "length chunks \<le> length metadata" by simp
  from 5(2) store_stage_ok [OF _ lm, of embeddings "stored cfg chroma" True cfg chroma]
  show ?case by simp
qed

lemma sample_chunks_two:
  "chunk_documents sample_config [doc_two, doc_b]
     = Some ([replicate 60 CHR ''c'', replicate 60 CHR ''e'', replicate 60 CHR ''d''],
             [doc_metadata doc_two 0 2, doc_metadata doc_two 1 2, doc_metadata doc_b 0 1])"
  by code_simp

lemma sample_doc_chunks_two:
  "doc_chunks sample_config doc_two = Some [replicate 60 CHR ''c'', replicate 60 CHR ''e'']"
  by code_simp

lemma sample_doc_chunks_b: "doc_chunks sample_config doc_b = Some [replicate 60 CHR ''d'']"
  by code_simp

theorem chunk_documents_order_witness:
  "0 < chunk_size sample_config \<and> 0 \<le> chunk_overlap sample_config
   \<and> chunk_overlap sample_config \<le> chunk_size sample_config div 2
   \<and> chunk_documents sample_config [doc_two, doc_b]
       = Some ([replicate 60 CHR ''c'', replicate 60 CHR ''e'', replicate 60 CHR ''d''],
               [doc_metadata doc_two 0 2, doc_metadata doc_two 1 2, doc_metadata doc_b 0 1])
   \<and> [replicate 60 CHR ''c'', replicate 60 CHR ''e'', replicate 60 CHR ''d''] ! 1
       = replicate 60 CHR ''e''
   \<and> dict_item ([doc_metadata doc_two 0 2, doc_metadata doc_two 1 2, doc_metadata doc_b 0 1] ! 1)
        ''chunk_index'' = Inr (VInt 1)
   \<and> dict_item ([doc_metadata doc_two 0 2, doc_metadata doc_two 1 2, doc_metadata doc_b 0 1] ! 1)
        ''total_chunks'' = Inr (VInt 2)
   \<and> dict_item ([doc_metadata doc_two 0 2, doc_metadata doc_two 1 2, doc_metadata doc_b 0 1] ! 2)
        ''chunk_index'' = Inr (VInt 0)
   \<and> dict_item ([doc_metadata doc_two 0 2, doc_metadata doc_two 1 2, doc_metadata doc_b 0 1] ! 2)
        ''filename'' = Inr (VStr ''b.txt'')
   \<and> stored sample_config
        (fst (store_stage sample_config stale_store False
                [replicate 60 CHR ''c'', replicate 60 CHR ''e'', replicate 60 CHR ''d'']
                [60, 61, 62]
                [doc_metadata doc_two 0 2, doc_metadata doc_two 1 2, doc_metadata doc_b 0 1]))
      = [\<lparr>rec_id = chunk_id 0, rec_document = replicate 60 CHR ''c'', rec_embedding = 60,
           rec_metadata = doc_metadata doc_two 0 2\<rparr>,
         \<lparr>rec_id = chunk_id 1, rec_document = replicate 60 CHR ''e'', rec_embedding = 61,
           rec_metadata = doc_metadata doc_two 1 2\<rparr>,
         \<lparr>rec_id = chunk_id 2, rec_document = replicate 60 CHR ''d'', rec_embedding = 62,
           rec_metadata = doc_metadata doc_b 0 1\<rparr>]
   \<and> stored sample_config
        (fst (store_stage sample_config store_a True
                [replicate 60 CHR ''d''] [61] [doc_metadata doc_b 0 1]))
      = [rec_a,
         \<lparr>rec_id = chunk_id 1, rec_document = replicate 60 CHR ''d'', rec_embedding = 61,
           rec_metadata = doc_metadata doc_b 0 1\<rparr>]"
proof -
  let ?cs = "[replicate 60 CHR ''c'', replicate 60 CHR ''e'', replicate 60 CHR ''d'']"
  let ?ms = "[doc_metadata doc_two 0 2, doc_metadata doc_two 1 2, doc_metadata doc_b 0 1]"
  have valid: "0 < chunk_size sample_config \<and> 0 \<le> chunk_overlap sample_config
      \<and> chunk_overlap sample_config \<le> chunk_size sample_config div 2"
    by (simp add: sample_config_def)
  note two = chunk_documents_order [of sample_config "[doc_two, doc_b]"]
  from two valid have "\<exists>chunks metadata.
      chunk_documents sample_config [doc_two, doc_b] = Some (chunks, metadata)"
    by blast
  from two sample_chunks_two obtain per_doc where
    l: "length per_doc = length [doc_two, doc_b]"
    and n: "\<forall>k < length [doc_two, doc_b].
              doc_chunks sample_config ([doc_two, doc_b] ! k) = Some (per_doc ! k)"
    and pos: "\<forall>k < length [doc_two, doc_b]. \<forall>i < length (per_doc ! k).
                ?cs ! (length (concat (take k per_doc)) + i) = per_doc ! k ! i
              \<and> dict_item (?ms ! (length (concat (take k per_doc)) + i)) ''chunk_index''
                  = Inr (VInt (int i))
              \<and> dict_item (?ms ! (length (concat (take k per_doc)) + i)) ''total_chunks''
                  = Inr (VInt (int (length (per_doc ! k))))
              \<and> dict_item (?ms ! (length (concat (take k per_doc)) + i)) ''filename''
                  = Inr (VStr (filename ([doc_two, doc_b] ! k)))"
    by blast
  from n [rule_format, of 0] sample_doc_chunks_two
  have p0: "per_doc ! 0 = [replicate 60 CHR ''c'', replicate 60 CHR ''e'']" by simp
  from n [rule_format, of 1] sample_doc_chunks_b
  have p1: "per_doc ! 1 = [replicate 60 CHR ''d'']" by simp
  from l p0 p1 have pd: "per_doc = [[replicate 60 CHR ''c'', replicate 60 CHR ''e''],
                                     [replicate 60 CHR ''d'']]"
    by (auto simp: list_eq_iff_nth_eq less_Suc_eq numeral_2_eq_2)
  have name: "filename doc_b = ''b.txt''"
    by (simp add: doc_b_def sample_doc_def)
  from pos [rule_format, of 0 1] pd
  have a: "?cs ! 1 = replicate 60 CHR ''e''"
    "dict_item (?ms ! 1) ''chunk_index'' = Inr (VInt 1)"
    "dict_item (?ms ! 1) ''total_chunks'' = Inr (VInt 2)"
    by simp_all
  from pos [rule_format, of 1 0] pd name
  have b: "dict_item (?ms ! 2) ''chunk_index'' = Inr (VInt 0)"
    "dict_item (?ms ! 2) ''filename'' = Inr (VStr ''b.txt'')"
    by simp_all
  from two sample_chunks_two have "\<forall>embeddings chroma.
      length ?cs \<le> length embeddings \<longrightarrow>
      store_stage sample_config chroma False ?cs embeddings ?ms
      = (chroma (collection_name sample_config \<mapsto>
           map (ingest_record 0 ?cs embeddings ?ms) [0 ..< length ?cs]), None)"
    by blast
  from this [rule_format, of "[60, 61, 62]" stale_store]
  have s1: "stored sample_config
        (fst (store_stage sample_config stale_store False ?cs [60, 61, 62] ?ms))
      = [\<lparr>rec_id = chunk_id 0, rec_document = replicate 60 CHR ''c'', rec_embedding = 60,
           rec_metadata = doc_metadata doc_two 0 2\<rparr>,
         \<lparr>rec_id = chunk_id 1, rec_document = replicate 60 CHR ''e'', rec_embedding = 61,
           rec_metadata = doc_metadata doc_two 1 2\<rparr>,
         \<lparr>rec_id = chunk_id 2, rec_document = replicate 60 CHR ''d'', rec_embedding = 62,
           rec_metadata = doc_metadata doc_b 0 1\<rparr>]"
    by (simp add: stored_update ingest_record_def upt_rec numeral_2_eq_2)
  from chunk_documents_order [of sample_config "[doc_b]"] sample_chunks_b
  have "\<forall>embeddings chroma. length [replicate 60 CHR ''d''] \<le> length embeddings
          \<and> set (map chunk_id [length (stored sample_config chroma) ..<
                                 length (stored sample_config chroma) + length [replicate 60 CHR ''d'']])
              \<inter> set (map rec_id (stored sample_config chroma)) = {} \<longrightarrow>
          store_stage sample_config chroma True [replicate 60 CHR ''d''] embeddings [doc_metadata doc_b 0 1]
            = (chroma (collection_name sample_config \<mapsto>
                 stored sample_config chroma
                 @ map (ingest_record (length (stored sample_config chroma)) [replicate 60 CHR ''d'']
                          embeddings [doc_metadata doc_b 0 1])
                     [0 ..< length [replicate 60 CHR ''d'']]), None)"
    by blast
  from this [rule_format, of "[61]" store_a]
  have s2: "stored sample_config
        (fst (store_stage sample_config store_a True
                [replicate 60 CHR ''d''] [61] [doc_metadata doc_b 0 1]))
      = [rec_a,
         \<lparr>rec_id = chunk_id 1, rec_document = replicate 60 CHR ''d'', rec_embedding = 61,
           rec_metadata = doc_metadata doc_b 0 1\<rparr>]"
    by (simp add: stored_update stored_store_a ingest_record_def rec_a_def chunk_id_eq)
  from valid sample_chunks_two a b s1 s2 show ?thesis by simp
qed

section \<open>Loader\<close>









section \<open>Retrieval pipeline\<close>

lemma query_loop_sources:
  "query_loop fops results acc = Inr built \<Longrightarrow>
   fst built = fst acc @ map (source_info fops) results"
proof (induction results arbitrary: acc)
  case Nil
  then show ?case by simp
next
  case (Cons r results)
  from Cons.prems obtain name idx where
    "query_loop fops results
       (fst acc @ [source_info fops r],
        snd acc @ [''[Fonte: '' @ py_str name @ '', sezione '' @ py_str idx @ '']''
                   @ ''\<newline>'' @ fst r]) = Inr built"
    by (auto split: sum.splits)
  from Cons.IH [OF this] show ?case by simp
qed

lemma collection_query_sorted:
  assumes "collection_query distance coll q n = Inr results"
  shows "sorted (map (\<lambda>r. snd (snd r)) results)"
proof -
  let ?all = "map (\<lambda>r. (rec_document r, rec_metadata r, distance q (rec_embedding r))) coll"
  from assms have r: "results = take (nat n) (sort_key (\<lambda>r. snd (snd r)) ?all)"
    by (simp add: collection_query_def split: if_splits)
  have "sorted (map (\<lambda>r. snd (snd r)) (sort_key (\<lambda>r. snd (snd r)) ?all))"
    by (rule sorted_sort_key)
  then have "sorted (take (nat n) (map (\<lambda>r. snd (snd r)) (sort_key (\<lambda>r. snd (snd r)) ?all)))"
    by (rule sorted_wrt_take)
  with r show ?thesis by (simp add: take_map)
qed

lemma query_success:
  assumes "query cfg env_key remote fops distance chroma question k_arg = (calls, Inr result)"
  shows "\<exists>coll v vs results built.
           get_collection chroma (collection_name cfg) = Inr coll
         \<and> embeddings_create remote (embed_model cfg) [question] = Inr (v # vs)
         \<and> collection_query distance coll v (requested cfg k_arg) = Inr results
         \<and> query_loop fops results ([], []) = Inr built
         \<and> res_sources result = fst built"
  using assms
  by (auto simp: query_def requested_def Let_def split: sum.splits list.splits)





lemma sample_query:
  "query sample_config [] sample_remote sample_float_ops sample_distance sample_store
     ''domanda'' None
   = ([EmbedCall ''mistral-embed'' [''domanda''],
       ChatCall ''mistral-small-latest'' ''Sei GDPRag.'' (user_prompt sample_context ''domanda'')],
      Inr sample_result)"
  by code_simp

text \<open>
  C9. When \<open>query\<close> returns, its citations are built from the records the similarity
  search returned, one citation per record and in the same order, which is nearest first
  (distances ascending). The citation of a record with distance \<open>d\<close> and chunk text
  \<open>t\<close> has similarity \<open>round(1 - d, 4)\<close> (the two float operations are parameters of
  the model) and preview \<open>t[:200] + '...'\<close> when \<open>len(t) > 200\<close>, \<open>t\<close> itself
  otherwise.
\<close>

theorem query_citations:
  assumes "query cfg env_key remote fops distance chroma question k_arg = (calls, Inr result)"
  shows "\<exists>coll v vs results.
           get_collection chroma (collection_name cfg) = Inr coll
         \<and> embeddings_create remote (embed_model cfg) [question] = Inr (v # vs)
         \<and> collection_query distance coll v (requested cfg k_arg) = Inr results
         \<and> sorted (map (\<lambda>r. snd (snd r)) results)
         \<and> length (res_sources result) = length results
         \<and> (\<forall>i < length results.
               cit_similarity (res_sources result ! i)
                 = round4 fops (one_minus fops (snd (snd (results ! i))))
             \<and> cit_preview (res_sources result ! i)
                 = (if length (fst (results ! i)) > 200
                    then take 200 (fst (results ! i)) @ ''...''
                    else fst (results ! i))
             \<and> cit_filename (res_sources result ! i)
                 = dict_get (fst (snd (results ! i))) ''filename'' (VStr ''?'')
             \<and> cit_chunk_index (res_sources result ! i)
                 = dict_get (fst (snd (results ! i))) ''chunk_index'' (VStr ''?''))"
proof -
  from query_success [OF assms] obtain coll v vs results built where
    g: "get_collection chroma (collection_name cfg) = Inr coll"
    and e: "embeddings_create remote (embed_model cfg) [question] = Inr (v # vs)"
    and q: "collection_query distance coll v (requested cfg k_arg) = Inr results"
    and l: "query_loop fops results ([], []) = Inr built"
    and s: "res_sources result = fst built"
    by blast
  from query_loop_sources [OF l] s
  have src: "res_sources result = map (source_info fops) results" by simp
  then have "length (res_sources result) = length results" by simp
  moreover from src have "\<forall>i < length results.
               cit_similarity (res_sources result ! i)
                 = round4 fops (one_minus fops (snd (snd (results ! i))))
             \<and> cit_preview (res_sources result ! i)
                 = (if length (fst (results ! i)) > 200
                    then take 200 (fst (results ! i)) @ ''...''
                    else fst (results ! i))
             \<and> cit_filename (res_sources result ! i)
                 = dict_get (fst (snd (results ! i))) ''filename'' (VStr ''?'')
             \<and> cit_chunk_index (res_sources result ! i)
                 = dict_get (fst (snd (results ! i))) ''chunk_index'' (VStr ''?'')"
    by (simp add: source_info_def Let_def)
  moreover note collection_query_sorted [OF q]
  ultimately show ?thesis using g e q by blast
qed

theorem query_citations_witness:
  "query sample_config [] sample_remote sample_float_ops sample_distance sample_store
     ''domanda'' None
   = ([EmbedCall ''mistral-embed'' [''domanda''],
       ChatCall ''mistral-small-latest'' ''Sei GDPRag.'' (user_prompt sample_context ''domanda'')],
      Inr sample_result)
   \<and> collection_query sample_distance (stored sample_config sample_store) 7 5
       = Inr [(replicate 60 CHR ''d'', doc_metadata doc_b 0 1, 53),
              (long_doc, doc_metadata doc_a 0 1, 243)]
   \<and> map cit_similarity (res_sources sample_result) = [10000 - 53, 10000 - 243]
   \<and> map cit_preview (res_sources sample_result)
       = [replicate 60 CHR ''d'', take 200 long_doc @ ''...'']
   \<and> length (res_sources sample_result) = 2"
proof -
  from query_citations [OF sample_query] obtain coll v vs results where
    g: "get_collection sample_store (collection_name sample_config) = Inr coll"
    and e: "embeddings_create sample_remote (embed_model sample_config) [''domanda''] = Inr (v # vs)"
    and q: "collection_query sample_distance coll v (requested sample_config None) = Inr results"
    and n: "length (res_sources sample_result) = length results"
    and c: "\<forall>i < length results.
               cit_similarity (res_sources sample_result ! i)
                 = round4 sample_float_ops (one_minus sample_float_ops (snd (snd (results ! i))))
             \<and> cit_preview (res_sources sample_result ! i)
                 = (if length (fst (results ! i)) > 200
                    then take 200 (fst (results ! i)) @ ''...''
                    else fst (results ! i))"
    by blast
  from g have coll: "coll = stored sample_config sample_store"
    by (simp add: get_collection_def stored_def sample_store_def sample_name)
  from e have v: "v = 7" by (simp add: sample_remote_def)
  have k: "requested sample_config None = 5"
    by (simp add: requested_def sample_config_def)
  have r: "collection_query sample_distance (stored sample_config sample_store) 7 5
       = Inr [(replicate 60 CHR ''d'', doc_metadata doc_b 0 1, 53),
              (long_doc, doc_metadata doc_a 0 1, 243)]"
    by code_simp
  with q coll v k have res: "results = [(replicate 60 CHR ''d'', doc_metadata doc_b 0 1, 53),
              (long_doc, doc_metadata doc_a 0 1, 243)]"
    by simp
  from n res have len: "length (res_sources sample_result) = 2" by simp
  from c [rule_format, of 0] c [rule_format, of 1] res
  have "cit_similarity (res_sources sample_result ! 0) = 10000 - 53"
    "cit_similarity (res_sources sample_result ! 1) = 10000 - 243"
    "cit_preview (res_sources sample_result ! 0) = replicate 60 CHR ''d''"
    "cit_preview (res_sources sample_result ! 1) = take 200 long_doc @ ''...''"
    by (simp_all add: sample_float_ops_def long_doc_def)
  with len have "map cit_similarity (res_sources sample_result) = [10000 - 53, 10000 - 243]"
    and "map cit_preview (res_sources sample_result)
       = [replicate 60 CHR ''d'', take 200 long_doc @ ''...'']"
    by (auto simp: list_eq_iff_nth_eq less_Suc_eq numeral_2_eq_2)
  with sample_query r len show ?thesis by simp
qed

end
